theory Spec2Isabelle
  imports Main
begin

section \<open>The type graph of quicktype-core (Type/TypeGraph.ts)\<close>

text \<open>
  A shallow embedding of \<^verbatim>\<open>TypeAttributeStore\<close>, \<^verbatim>\<open>TypeAttributeStoreView\<close> and
  \<^verbatim>\<open>TypeGraph\<close>. Exceptions are values of \<open>error + 'a\<close> (\<open>Inl\<close> the exception);
  JavaScript's \<^verbatim>\<open>undefined\<close> is \<open>None\<close>; a \<^verbatim>\<open>Map\<close> is an association list in insertion
  order and a \<^verbatim>\<open>Set\<close> a duplicate-free list in insertion order. Graph objects live in a
  heap and are named by their address, so that object identity and mutation can be stated.
  Writes to the console are not modelled.
\<close>

subsection \<open>Errors and the helpers of support/Support.ts and Messages.ts\<close>

datatype error =
    InternalError string
  | TypeError
  | MessageError string nat "int list"

text \<open>
  Modelled from the spec: \<^verbatim>\<open>assert\<close>, \<^verbatim>\<open>defined\<close> and \<^verbatim>\<open>mustNotHappen\<close> of
  support/Support.ts, which is not among the sources. A fatal invariant violation aborts
  the operation with an internal error; \<^verbatim>\<open>defined\<close> aborts on \<^verbatim>\<open>undefined\<close>.
\<close>

definition assert :: "bool \<Rightarrow> string \<Rightarrow> error + unit" where
  "assert b msg = (if b then Inr () else Inl (InternalError msg))"

definition defined :: "'a option \<Rightarrow> error + 'a" where
  "defined x = (case x of None \<Rightarrow> Inl (InternalError ''Defined value expected, but got undefined'')
                        | Some v \<Rightarrow> Inr v)"

text \<open>
  Modelled from the spec: \<^verbatim>\<open>messageError\<close> of Messages.ts, which is not among the
  sources. It raises the structured, identified error with its properties; for
  \<^verbatim>\<open>IRTypeAttributesNotPropagated\<close> these are the count and the list of markers.
\<close>

definition messageError :: "string \<Rightarrow> nat \<Rightarrow> int list \<Rightarrow> error + 'a" where
  "messageError kind count indexes = Inl (MessageError kind count indexes)"

subsection \<open>JavaScript's Map and Set, and the helpers of collection-utils\<close>

text \<open>\<^verbatim>\<open>Map.prototype.set\<close>: an existing key keeps its place, a new key goes last.\<close>

fun Map_set :: "'k \<Rightarrow> 'v \<Rightarrow> ('k \<times> 'v) list \<Rightarrow> ('k \<times> 'v) list" where
  "Map_set k v [] = [(k, v)]"
| "Map_set k v (p # ps) = (if fst p = k then (k, v) # ps else p # Map_set k v ps)"

definition Map_get :: "('k \<times> 'v) list \<Rightarrow> 'k \<Rightarrow> 'v option" where
  "Map_get m k = map_of m k"

text \<open>\<^verbatim>\<open>Set.prototype.add\<close>, and \<^verbatim>\<open>new Set(iterable)\<close> which adds the elements in turn.\<close>

definition Set_add :: "'a list \<Rightarrow> 'a \<Rightarrow> 'a list" where
  "Set_add s x = (if x \<in> set s then s else s @ [x])"

definition new_Set :: "'a list \<Rightarrow> 'a list" where
  "new_Set xs = foldl Set_add [] xs"

text \<open>
  \<^verbatim>\<open>setUnionManyInto(dest, srcs)\<close> adds every element of every source to \<^verbatim>\<open>dest\<close>;
  \<^verbatim>\<open>setSubtract(src, diff)\<close> keeps the elements of \<^verbatim>\<open>src\<close> that are not in \<^verbatim>\<open>diff\<close>;
  \<^verbatim>\<open>mapMap(m, f)\<close> applies \<^verbatim>\<open>f\<close> to every value, here with a callback that may throw.
\<close>

definition setUnionManyInto :: "'a list \<Rightarrow> 'a list list \<Rightarrow> 'a list" where
  "setUnionManyInto dest srcs = foldl (\<lambda>d src. foldl Set_add d src) dest srcs"

definition setSubtract :: "'a list \<Rightarrow> 'a list \<Rightarrow> 'a list" where
  "setSubtract src diff = filter (\<lambda>x. x \<notin> set diff) src"

fun mapMap :: "('k \<times> 'a) list \<Rightarrow> ('a \<Rightarrow> error + 'b) \<Rightarrow> error + ('k \<times> 'b) list" where
  "mapMap [] f = Inr []"
| "mapMap ((k, v) # m) f =
     (case f v of
        Inl e \<Rightarrow> Inl e
      | Inr w \<Rightarrow> (case mapMap m f of Inl e \<Rightarrow> Inl e | Inr m' \<Rightarrow> Inr ((k, w) # m')))"

subsection \<open>Type references, type nodes and attributes\<close>

text \<open>
  Modelled from the spec: Type/TypeRef.ts is not among the sources. A type reference is
  the pair of a graph generation's serial and an index into that generation's node array;
  \<^verbatim>\<open>assertTypeRefGraph\<close> aborts when the reference belongs to another generation.
\<close>

record TypeRef =
  tref_serial :: nat
  tref_index :: nat

definition typeRefIndex :: "TypeRef \<Rightarrow> nat" where
  "typeRefIndex tref = tref_index tref"

definition assertTypeRefGraph :: "TypeRef \<Rightarrow> nat \<Rightarrow> error + unit" where
  "assertTypeRefGraph tref graph_serial =
     assert (tref_serial tref = graph_serial) ''Mixing the wrong type reference and graph''"

text \<open>
  Modelled from the spec: Type/Type.ts is not among the sources. A node carries its own
  reference, a kind tag and the references of its children; the engine only ever uses its
  identity, its index and its children. The identity of a node object is the equality of
  the records: two nodes of one generation differ in their index.
\<close>

record Type =
  typeRef :: TypeRef
  kind :: string
  childRefs :: "TypeRef list"

definition index :: "Type \<Rightarrow> nat" where
  "index t = typeRefIndex (typeRef t)"

text \<open>
  Modelled from the spec: attributes/TypeAttributes.ts is not among the sources. An
  attribute kind is identified by its name and brings its own merge rule \<^verbatim>\<open>combine\<close>;
  \<^verbatim>\<open>TypeAttributes\<close> is a \<^verbatim>\<open>Map\<close> from kinds to values, keyed here by the kind's name.
\<close>

record 'v TypeAttributeKind =
  kind_name :: string
  combine :: "'v list \<Rightarrow> 'v"

type_synonym 'v TypeAttributes = "(string \<times> 'v) list"

definition emptyTypeAttributes :: "'v TypeAttributes" where
  "emptyTypeAttributes = []"

subsection \<open>TypeAttributeStore\<close>

text \<open>
  The store keeps the array \<^verbatim>\<open>_values\<close>, the map \<^verbatim>\<open>_topLevelValues\<close> and its graph. The
  graph is only ever passed to \<^verbatim>\<open>assertTypeRefGraph\<close>, which reads its read-only serial,
  so the field holds that serial.
\<close>

record 'v TypeAttributeStore =
  store_topLevelValues :: "(string \<times> 'v TypeAttributes) list"
  store_typeGraph :: nat
  store_values :: "'v TypeAttributes option list"

definition new_TypeAttributeStore :: "nat \<Rightarrow> 'v TypeAttributes option list \<Rightarrow> 'v TypeAttributeStore" where
  "new_TypeAttributeStore graph_serial vals =
     \<lparr>store_topLevelValues = [], store_typeGraph = graph_serial, store_values = vals\<rparr>"

definition getTypeIndex :: "'v TypeAttributeStore \<Rightarrow> Type \<Rightarrow> error + nat" where
  "getTypeIndex s t =
     (let tref = typeRef t in
      case assertTypeRefGraph tref (store_typeGraph s) of
        Inl e \<Rightarrow> Inl e
      | Inr _ \<Rightarrow> Inr (typeRefIndex tref))"

text \<open>An array read out of range gives \<^verbatim>\<open>undefined\<close>.\<close>

definition array_get :: "'a option list \<Rightarrow> nat \<Rightarrow> 'a option" where
  "array_get xs i = (if i < length xs then xs ! i else None)"

definition attributesForType :: "'v TypeAttributeStore \<Rightarrow> Type \<Rightarrow> error + 'v TypeAttributes" where
  "attributesForType s t =
     (case getTypeIndex s t of
        Inl e \<Rightarrow> Inl e
      | Inr i \<Rightarrow>
          (case array_get (store_values s) i of
             Some maybeAttributes \<Rightarrow> Inr maybeAttributes
           | None \<Rightarrow> Inr emptyTypeAttributes))"

definition attributesForTopLevel :: "'v TypeAttributeStore \<Rightarrow> string \<Rightarrow> 'v TypeAttributes" where
  "attributesForTopLevel s name =
     (case Map_get (store_topLevelValues s) name of
        Some maybeAttributes \<Rightarrow> maybeAttributes
      | None \<Rightarrow> emptyTypeAttributes)"

definition setInMap :: "'v TypeAttributes \<Rightarrow> 'v TypeAttributeKind \<Rightarrow> 'v \<Rightarrow> 'v TypeAttributes" where
  "setInMap attributes k v = Map_set (kind_name k) v attributes"

text \<open>The loop \<^verbatim>\<open>while (index >= this._values.length) this._values.push(undefined)\<close>.\<close>

function growValues :: "nat \<Rightarrow> 'a option list \<Rightarrow> 'a option list" where
  "growValues i vals = (if i \<ge> length vals then growValues i (vals @ [None]) else vals)"
  by pat_completeness auto
termination
  by (relation "measure (\<lambda>(i, vals). Suc i - length vals)") auto

declare growValues.simps [simp del]

definition store_set ::
  "'v TypeAttributeKind \<Rightarrow> Type \<Rightarrow> 'v \<Rightarrow> 'v TypeAttributeStore \<Rightarrow> error + 'v TypeAttributeStore" where
  "store_set k t v s =
     (case getTypeIndex s t of
        Inl e \<Rightarrow> Inl e
      | Inr i \<Rightarrow>
          (let s1 = s\<lparr>store_values := growValues i (store_values s)\<rparr> in
           case attributesForType s1 t of
             Inl e \<Rightarrow> Inl e
           | Inr attributes \<Rightarrow>
               Inr (s1\<lparr>store_values := (store_values s1)[i := Some (setInMap attributes k v)]\<rparr>)))"

definition setForTopLevel ::
  "'v TypeAttributeKind \<Rightarrow> string \<Rightarrow> 'v \<Rightarrow> 'v TypeAttributeStore \<Rightarrow> 'v TypeAttributeStore" where
  "setForTopLevel k topLevelName v s =
     s\<lparr>store_topLevelValues :=
         Map_set topLevelName (setInMap (attributesForTopLevel s topLevelName) k v)
           (store_topLevelValues s)\<rparr>"

definition tryGetInMap :: "'v TypeAttributes \<Rightarrow> 'v TypeAttributeKind \<Rightarrow> 'v option" where
  "tryGetInMap attributes k = Map_get attributes (kind_name k)"

definition tryGet :: "'v TypeAttributeKind \<Rightarrow> Type \<Rightarrow> 'v TypeAttributeStore \<Rightarrow> error + 'v option" where
  "tryGet k t s =
     (case attributesForType s t of
        Inl e \<Rightarrow> Inl e
      | Inr attributes \<Rightarrow> Inr (tryGetInMap attributes k))"

definition tryGetForTopLevel :: "'v TypeAttributeKind \<Rightarrow> string \<Rightarrow> 'v TypeAttributeStore \<Rightarrow> 'v option" where
  "tryGetForTopLevel k topLevelName s = tryGetInMap (attributesForTopLevel s topLevelName) k"

subsection \<open>TypeAttributeStoreView\<close>

text \<open>The view is the pair of a store and one kind; its methods pass the kind on.\<close>

definition view_set ::
  "'v TypeAttributeKind \<Rightarrow> Type \<Rightarrow> 'v \<Rightarrow> 'v TypeAttributeStore \<Rightarrow> error + 'v TypeAttributeStore" where
  "view_set definition_kind t v s = store_set definition_kind t v s"

definition view_tryGet :: "'v TypeAttributeKind \<Rightarrow> Type \<Rightarrow> 'v TypeAttributeStore \<Rightarrow> error + 'v option" where
  "view_tryGet definition_kind t s = tryGet definition_kind t s"

definition view_get :: "'v TypeAttributeKind \<Rightarrow> Type \<Rightarrow> 'v TypeAttributeStore \<Rightarrow> error + 'v" where
  "view_get definition_kind t s =
     (case view_tryGet definition_kind t s of Inl e \<Rightarrow> Inl e | Inr x \<Rightarrow> defined x)"

subsection \<open>Attribute values and the provenance kind\<close>

text \<open>
  Attribute values are opaque to the engine, except for the value of the provenance kind,
  which is a set of origin markers.
\<close>

datatype AttrValue = ProvenanceValue "int list" | OtherValue string

text \<open>
  The markers of a value read as a \<^verbatim>\<open>Set<number>\<close>. TypeScript's typing of
  \<^verbatim>\<open>TypeAttributeKind<Set<number>>\<close> excludes any other value under the provenance kind;
  such a value has no markers here.
\<close>

fun provenanceSet :: "AttrValue \<Rightarrow> int list" where
  "provenanceSet (ProvenanceValue s) = s"
| "provenanceSet (OtherValue _) = []"

text \<open>
  Modelled from the spec: Type/ProvenanceTypeAttributeKind.ts is not among the sources.
  The provenance kind holds a set of integer origin markers, merged by union.
\<close>

definition provenanceTypeAttributeKind :: "AttrValue TypeAttributeKind" where
  "provenanceTypeAttributeKind =
     \<lparr>kind_name = ''provenance'',
      combine = (\<lambda>vs. ProvenanceValue (setUnionManyInto [] (map provenanceSet vs)))\<rparr>"

subsection \<open>The builders and the other collaborators outside the sources\<close>

text \<open>
  Modelled from the spec: GraphRewriting.ts and Type/TypeBuilder.ts are not among the
  sources. A builder is the single-use construction context of one new generation. The
  record is what the engine reads of it: the top-levels, nodes and attribute array it
  hands to \<^verbatim>\<open>freeze\<close>, the two flags read after \<^verbatim>\<open>finish\<close>, and the error that its
  reconstruction raised before it reached \<^verbatim>\<open>freeze\<close>, if any.
\<close>

record Builder =
  b_topLevels :: "(string \<times> TypeRef) list"
  b_types :: "Type list"
  b_typeAttributes :: "AttrValue TypeAttributes option list"
  lostTypeAttributes :: bool
  didAddForwardingIntersection :: bool
  b_failure :: "error option"

text \<open>
  Modelled from the spec: \<^verbatim>\<open>TypeBuilder.typeAtIndex\<close>, which an open graph delegates to;
  the builder knows the nodes not yet finalized and aborts on an index it has no node for.
\<close>

definition builder_typeAtIndex :: "Builder \<Rightarrow> nat \<Rightarrow> error + Type option" where
  "builder_typeAtIndex b i =
     (if i < length (b_types b) then Inr (Some (b_types b ! i))
      else Inl (InternalError ''Trying to deref an undefined type in a type builder''))"

type_synonym StringTypeMapping = "(string \<times> string) list"

type_synonym Replacer = "Type list \<Rightarrow> TypeRef \<Rightarrow> error + TypeRef"

definition mustNotHappen :: Replacer where
  "mustNotHappen typesToReplace forwardingRef = Inl (InternalError ''This must not happen'')"

subsection \<open>TypeGraph: the object and its queries\<close>

record TypeGraph =
  g_typeBuilder :: "Builder option"
  g_attributeStore :: "AttrValue TypeAttributeStore option"
  g_topLevels :: "(string \<times> Type option) list"
  g_types :: "Type list option"
  g_printOnRewrite :: bool
  serial :: nat
  g_haveProvenanceAttributes :: bool

definition new_TypeGraph :: "Builder \<Rightarrow> nat \<Rightarrow> bool \<Rightarrow> TypeGraph" where
  "new_TypeGraph typeBuilder serial_no haveProvenanceAttributes =
     \<lparr>g_typeBuilder = Some typeBuilder, g_attributeStore = None, g_topLevels = [],
      g_types = None, g_printOnRewrite = False, serial = serial_no,
      g_haveProvenanceAttributes = haveProvenanceAttributes\<rparr>"

definition isFrozen :: "TypeGraph \<Rightarrow> bool" where
  "isFrozen g = (g_typeBuilder g = None)"

definition attributeStore :: "TypeGraph \<Rightarrow> error + AttrValue TypeAttributeStore" where
  "attributeStore g = defined (g_attributeStore g)"

definition typeAtIndex :: "TypeGraph \<Rightarrow> nat \<Rightarrow> error + Type option" where
  "typeAtIndex g i =
     (case g_typeBuilder g of
        Some b \<Rightarrow> builder_typeAtIndex b i
      | None \<Rightarrow>
          (case defined (g_types g) of
             Inl e \<Rightarrow> Inl e
           | Inr ts \<Rightarrow> Inr (if i < length ts then Some (ts ! i) else None)))"

text \<open>
  Modelled from the spec: \<^verbatim>\<open>derefTypeRef\<close> of Type/TypeRef.ts. Dereferencing a reference
  against another generation is fatal; otherwise it is the node at the reference's index.
\<close>

definition derefTypeRef :: "TypeRef \<Rightarrow> TypeGraph \<Rightarrow> error + Type option" where
  "derefTypeRef tref g =
     (case assertTypeRefGraph tref (serial g) of
        Inl e \<Rightarrow> Inl e
      | Inr _ \<Rightarrow> typeAtIndex g (typeRefIndex tref))"

fun derefAll :: "TypeRef list \<Rightarrow> TypeGraph \<Rightarrow> error + Type option list" where
  "derefAll [] g = Inr []"
| "derefAll (r # rs) g =
     (case derefTypeRef r g of
        Inl e \<Rightarrow> Inl e
      | Inr t \<Rightarrow> (case derefAll rs g of Inl e \<Rightarrow> Inl e | Inr ts \<Rightarrow> Inr (t # ts)))"

text \<open>
  Modelled from the spec: \<^verbatim>\<open>Type.getChildren\<close>, the set of the nodes that the node's
  child references denote in its graph.
\<close>

definition getChildren :: "TypeGraph \<Rightarrow> Type \<Rightarrow> error + Type option list" where
  "getChildren g t =
     (case derefAll (childRefs t) g of Inl e \<Rightarrow> Inl e | Inr cs \<Rightarrow> Inr (new_Set cs))"

text \<open>The loop \<^verbatim>\<open>for (const t of types) assertTypeRefGraph(t.typeRef, this)\<close>.\<close>

fun assertTypeRefs :: "Type list \<Rightarrow> nat \<Rightarrow> error + unit" where
  "assertTypeRefs [] graph_serial = Inr ()"
| "assertTypeRefs (t # ts) graph_serial =
     (case assertTypeRefGraph (typeRef t) graph_serial of
        Inl e \<Rightarrow> Inl e
      | Inr _ \<Rightarrow> assertTypeRefs ts graph_serial)"

definition freeze ::
  "TypeGraph \<Rightarrow> (string \<times> TypeRef) list \<Rightarrow> Type list \<Rightarrow> AttrValue TypeAttributes option list
     \<Rightarrow> error + TypeGraph" where
  "freeze g topLevels types typeAttributes =
     (case assert (\<not> isFrozen g) ''Tried to freeze TypeGraph a second time'' of
        Inl e \<Rightarrow> Inl e
      | Inr _ \<Rightarrow>
     (case assertTypeRefs types (serial g) of
        Inl e \<Rightarrow> Inl e
      | Inr _ \<Rightarrow>
          (let g1 = g\<lparr>g_attributeStore := Some (new_TypeAttributeStore (serial g) typeAttributes)\<rparr>;
               g2 = g1\<lparr>g_types := Some types\<rparr>;
               g3 = g2\<lparr>g_typeBuilder := None\<rparr>
           in case mapMap topLevels (\<lambda>tref. derefTypeRef tref g3) of
                Inl e \<Rightarrow> Inl e
              | Inr tops \<Rightarrow> Inr (g3\<lparr>g_topLevels := tops\<rparr>))))"

definition topLevels :: "TypeGraph \<Rightarrow> error + (string \<times> Type option) list" where
  "topLevels g =
     (case assert (isFrozen g) ''Cannot get top-levels from a non-frozen graph'' of
        Inl e \<Rightarrow> Inl e
      | Inr _ \<Rightarrow> Inr (g_topLevels g))"

definition atIndex :: "TypeGraph \<Rightarrow> nat \<Rightarrow> error + (Type option \<times> AttrValue TypeAttributes)" where
  "atIndex g i =
     (case g_typeBuilder g of
        Some b \<Rightarrow>
          (case builder_typeAtIndex b i of
             Inl e \<Rightarrow> Inl e
           | Inr t \<Rightarrow>
               Inr (t, case array_get (b_typeAttributes b) i of
                         Some a \<Rightarrow> a | None \<Rightarrow> emptyTypeAttributes))
      | None \<Rightarrow>
          (case typeAtIndex g i of
             Inl e \<Rightarrow> Inl e
           | Inr None \<Rightarrow> Inl TypeError
           | Inr (Some t) \<Rightarrow>
               (case defined (g_attributeStore g) of
                  Inl e \<Rightarrow> Inl e
                | Inr s \<Rightarrow>
                    (case attributesForType s t of
                       Inl e \<Rightarrow> Inl e
                     | Inr a \<Rightarrow> Inr (Some t, a)))))"

definition allTypesUnordered :: "TypeGraph \<Rightarrow> error + Type list" where
  "allTypesUnordered g =
     (case assert (isFrozen g) ''Tried to get all graph types before it was frozen'' of
        Inl e \<Rightarrow> Inl e
      | Inr _ \<Rightarrow> (case defined (g_types g) of Inl e \<Rightarrow> Inl e | Inr ts \<Rightarrow> Inr (new_Set ts)))"

definition setPrintOnRewrite :: "TypeGraph \<Rightarrow> TypeGraph" where
  "setPrintOnRewrite g = g\<lparr>g_printOnRewrite := True\<rparr>"

subsection \<open>filterTypes and allNamedTypes\<close>

text \<open>
  The nodes a graph can hand out: those of its builder while it is open, those of its node
  array once it is frozen.
\<close>

definition graphNodes :: "TypeGraph \<Rightarrow> Type set" where
  "graphNodes g =
     (case g_typeBuilder g of
        Some b \<Rightarrow> set (b_types b)
      | None \<Rightarrow> (case g_types g of Some ts \<Rightarrow> set ts | None \<Rightarrow> {}))"

text \<open>\<^verbatim>\<open>const required = predicate === undefined || predicate(t)\<close>.\<close>

definition required :: "(Type \<Rightarrow> bool) option \<Rightarrow> Type \<Rightarrow> bool" where
  "required predicate t = (case predicate of None \<Rightarrow> True | Some p \<Rightarrow> p t)"

text \<open>
  The local function \<^verbatim>\<open>addFromType\<close> of \<^verbatim>\<open>filterTypes\<close>, with the state it closes over
  (the set \<^verbatim>\<open>seen\<close> and the array \<^verbatim>\<open>types\<close>) passed and returned, and the loop
  \<^verbatim>\<open>for (const c of ...) addFromType(c)\<close> that runs it over the children of a node and
  over the top-levels. On \<^verbatim>\<open>undefined\<close> (an index outside the node array) the predicate or
  \<^verbatim>\<open>getChildren\<close> raises a TypeError; \<^verbatim>\<open>undefined\<close> is therefore never kept in \<^verbatim>\<open>seen\<close>.
\<close>

function addFromType ::
    "TypeGraph \<Rightarrow> (Type \<Rightarrow> bool) option \<Rightarrow> Type option \<Rightarrow> Type list \<times> Type list
       \<Rightarrow> error + Type list \<times> Type list"
  and addFromTypes ::
    "TypeGraph \<Rightarrow> (Type \<Rightarrow> bool) option \<Rightarrow> Type option list \<Rightarrow> Type list \<times> Type list
       \<Rightarrow> error + Type list \<times> Type list"
where
  "addFromType g predicate None st = Inl TypeError"
| "addFromType g predicate (Some t) (seen, types) =
     (if t \<in> set seen then Inr (seen, types)
      else (case getChildren g t of
              Inl e \<Rightarrow> Inl e
            | Inr cs \<Rightarrow>
                addFromTypes g predicate cs
                  (Set_add seen t, if required predicate t then types @ [t] else types)))"
| "addFromTypes g predicate [] st = Inr st"
| "addFromTypes g predicate (c # cs) st =
     (case addFromType g predicate c st of
        Inl e \<Rightarrow> Inl e
      | Inr st' \<Rightarrow> addFromTypes g predicate cs st')"
  by pat_completeness auto

text \<open>Termination: the recursion is nested, so the growth of \<^verbatim>\<open>seen\<close> is shown first.\<close>

lemma addFrom_seen_mono:
  "addFromType_addFromTypes_dom (Inl (g, p, t, st)) \<Longrightarrow>
     addFromType g p t st = Inr st' \<Longrightarrow> set (fst st) \<subseteq> set (fst st')"
  "addFromType_addFromTypes_dom (Inr (g, p, cs, st)) \<Longrightarrow>
     addFromTypes g p cs st = Inr st' \<Longrightarrow> set (fst st) \<subseteq> set (fst st')"
proof (induction g p t st and g p cs st arbitrary: st' and st' rule: addFromType_addFromTypes.pinduct)
  case (1 g predicate st)
  then show ?case by (simp add: addFromType.psimps)
next
  case (2 g predicate t seen types)
  show ?case
  proof (cases "t \<in> set seen")
    case True
    with 2 show ?thesis by (simp add: addFromType.psimps)
  next
    case False
    with 2(1,3) obtain cs where cs: "getChildren g t = Inr cs"
      and r: "addFromTypes g predicate cs
                (Set_add seen t, if required predicate t then types @ [t] else types) = Inr st'"
      by (simp add: addFromType.psimps split: sum.splits)
    from 2(2)[OF False cs r] show ?thesis by (auto simp: Set_add_def split: if_splits)
  qed
next
  case (3 g predicate st)
  then show ?case by (simp add: addFromTypes.psimps)
next
  case (4 g predicate c cs st)
  from 4(1,4) obtain st1 where a: "addFromType g predicate c st = Inr st1"
      and b: "addFromTypes g predicate cs st1 = Inr st'"
    by (simp add: addFromTypes.psimps split: sum.splits)
  from 4(2)[OF a] 4(3)[OF a b] show ?case by blast
qed

lemma finite_graphNodes: "finite (graphNodes g)"
  by (simp add: graphNodes_def split: option.splits)

lemma typeAtIndex_graphNodes: "typeAtIndex g i = Inr (Some t) \<Longrightarrow> t \<in> graphNodes g"
  by (auto simp: typeAtIndex_def builder_typeAtIndex_def defined_def graphNodes_def
      split: option.splits if_splits sum.splits)

lemma derefAll_graphNodes: "derefAll rs g = Inr cs \<Longrightarrow> Some t \<in> set cs \<Longrightarrow> t \<in> graphNodes g"
proof (induction rs arbitrary: cs)
  case Nil
  then show ?case by simp
next
  case (Cons r rs)
  then show ?case
    by (auto simp: derefTypeRef_def split: sum.splits dest: typeAtIndex_graphNodes)
qed

lemma set_foldl_Set_add: "set (foldl Set_add s xs) = set s \<union> set xs"
  by (induction xs arbitrary: s) (auto simp: Set_add_def)

lemma set_new_Set: "set (new_Set xs) = set xs"
  by (simp add: new_Set_def set_foldl_Set_add)

lemma getChildren_graphNodes: "getChildren g t = Inr cs \<Longrightarrow> Some c \<in> set cs \<Longrightarrow> c \<in> graphNodes g"
  by (auto simp: getChildren_def set_new_Set split: sum.splits dest: derefAll_graphNodes)

text \<open>The nodes among the entries of a list of children or top-levels.\<close>

definition pendingNodes :: "Type option list \<Rightarrow> Type set" where
  "pendingNodes cs = (\<Union>c\<in>set cs. set_option c)"

lemma in_pendingNodes: "t \<in> pendingNodes cs \<longleftrightarrow> Some t \<in> set cs"
proof
  assume "t \<in> pendingNodes cs"
  then obtain c where "c \<in> set cs" "t \<in> set_option c" by (auto simp: pendingNodes_def)
  then show "Some t \<in> set cs" by (cases c) auto
next
  assume "Some t \<in> set cs"
  then have "\<exists>c\<in>set cs. t \<in> set_option c" by (intro bexI[of _ "Some t"]) auto
  then show "t \<in> pendingNodes cs" by (simp add: pendingNodes_def)
qed

lemma finite_pendingNodes: "finite (pendingNodes cs)"
  by (simp add: pendingNodes_def)

text \<open>
  The measure: the number of nodes of the graph, or of the list at hand, that are not in
  \<^verbatim>\<open>seen\<close>; then the length of the list, with a call of \<^verbatim>\<open>addFromType\<close> below every loop.
\<close>

definition addFrom_measure ::
  "(TypeGraph \<times> (Type \<Rightarrow> bool) option \<times> Type option \<times> Type list \<times> Type list) +
   (TypeGraph \<times> (Type \<Rightarrow> bool) option \<times> Type option list \<times> Type list \<times> Type list)
     \<Rightarrow> nat \<times> nat" where
  "addFrom_measure x =
     (case x of
        Inl (g, p, t, st) \<Rightarrow> (card ((graphNodes g \<union> pendingNodes [t]) - set (fst st)), 0)
      | Inr (g, p, cs, st) \<Rightarrow> (card ((graphNodes g \<union> pendingNodes cs) - set (fst st)), Suc (length cs)))"

termination addFromType
proof (relation "inv_image (less_than <*lex*> less_than) addFrom_measure", goal_cases)
  case 1
  show ?case by (intro wf_inv_image wf_lex_prod wf_less_than)
next
  case (2 g predicate t seen types cs)
  have fin: "finite ((graphNodes g \<union> pendingNodes [Some t]) - set seen)"
    by (simp add: finite_graphNodes finite_pendingNodes)
  have sub: "(graphNodes g \<union> pendingNodes cs) - set (Set_add seen t)
               \<subset> (graphNodes g \<union> pendingNodes [Some t]) - set seen"
  proof -
    have a: "c \<in> graphNodes g" if "Some c \<in> set cs" for c
      using getChildren_graphNodes[OF 2(2) that] .
    have b: "t \<notin> set seen" using 2(1) .
    have le: "(graphNodes g \<union> pendingNodes cs) - set (Set_add seen t)
               \<subseteq> (graphNodes g \<union> pendingNodes [Some t]) - set seen"
      using a by (auto simp: in_pendingNodes Set_add_def)
    have in_r: "t \<in> (graphNodes g \<union> pendingNodes [Some t]) - set seen"
      using b by (simp add: in_pendingNodes)
    have out_l: "t \<notin> (graphNodes g \<union> pendingNodes cs) - set (Set_add seen t)"
      by (simp add: Set_add_def)
    from le in_r out_l show ?thesis by blast
  qed
  from psubset_card_mono[OF fin sub] show ?case
    by (simp add: addFrom_measure_def)
next
  case (3 g predicate c cs st)
  have fin: "finite ((graphNodes g \<union> pendingNodes (c # cs)) - set (fst st))"
    by (simp add: finite_graphNodes finite_pendingNodes)
  have sub: "(graphNodes g \<union> pendingNodes [c]) - set (fst st)
               \<subseteq> (graphNodes g \<union> pendingNodes (c # cs)) - set (fst st)"
    by (auto simp: in_pendingNodes)
  from card_mono[OF fin sub] show ?case
    by (auto simp: addFrom_measure_def)
next
  case (4 g predicate c cs st st')
  have fin: "finite ((graphNodes g \<union> pendingNodes (c # cs)) - set (fst st))"
    by (simp add: finite_graphNodes finite_pendingNodes)
  have "set (fst st) \<subseteq> set (fst st')"
    using addFrom_seen_mono(1)[OF 4(2) 4(1)] .
  then have sub: "(graphNodes g \<union> pendingNodes cs) - set (fst st')
               \<subseteq> (graphNodes g \<union> pendingNodes (c # cs)) - set (fst st)"
    by (auto simp: in_pendingNodes)
  from card_mono[OF fin sub] show ?case
    by (auto simp: addFrom_measure_def)
qed

definition filterTypes :: "TypeGraph \<Rightarrow> (Type \<Rightarrow> bool) option \<Rightarrow> error + Type list" where
  "filterTypes g predicate =
     (case topLevels g of
        Inl e \<Rightarrow> Inl e
      | Inr tops \<Rightarrow>
          (case addFromTypes g predicate (map snd tops) ([], []) of
             Inl e \<Rightarrow> Inl e
           | Inr (seen, types) \<Rightarrow> Inr (new_Set types)))"

text \<open>
  \<^verbatim>\<open>isNamedType\<close> of Type/TypeUtils.ts is not among the sources; it is a parameter, the
  predicate supplied by the type model.
\<close>

definition allNamedTypes :: "(Type \<Rightarrow> bool) \<Rightarrow> TypeGraph \<Rightarrow> error + Type list" where
  "allNamedTypes isNamedType g = filterTypes g (Some isNamedType)"

subsection \<open>The lost-attribute check\<close>

text \<open>The callback of \<^verbatim>\<open>allProvenance\<close>, mapped over the nodes.\<close>

fun provenanceSets :: "AttrValue TypeAttributeStore \<Rightarrow> Type list \<Rightarrow> error + int list list" where
  "provenanceSets store [] = Inr []"
| "provenanceSets store (t # ts) =
     (case view_tryGet provenanceTypeAttributeKind t store of
        Inl e \<Rightarrow> Inl e
      | Inr maybeSet \<Rightarrow>
          (case provenanceSets store ts of
             Inl e \<Rightarrow> Inl e
           | Inr sets \<Rightarrow>
               Inr ((case maybeSet of Some v \<Rightarrow> provenanceSet v | None \<Rightarrow> []) # sets)))"

definition allProvenance :: "TypeGraph \<Rightarrow> error + int list" where
  "allProvenance g =
     (case assert (g_haveProvenanceAttributes g) ''Assertion failed'' of
        Inl e \<Rightarrow> Inl e
      | Inr _ \<Rightarrow>
     (case attributeStore g of
        Inl e \<Rightarrow> Inl e
      | Inr store \<Rightarrow>
     (case allTypesUnordered g of
        Inl e \<Rightarrow> Inl e
      | Inr ts \<Rightarrow>
     (case provenanceSets store ts of
        Inl e \<Rightarrow> Inl e
      | Inr sets \<Rightarrow> Inr (setUnionManyInto [] sets)))))"

definition checkLostTypeAttributes :: "TypeGraph \<Rightarrow> Builder \<Rightarrow> TypeGraph \<Rightarrow> error + unit" where
  "checkLostTypeAttributes g builder newGraph =
     (if \<not> g_haveProvenanceAttributes g \<or> lostTypeAttributes builder then Inr ()
      else
        (case allProvenance g of
           Inl e \<Rightarrow> Inl e
         | Inr oldProvenance \<Rightarrow>
        (case allProvenance newGraph of
           Inl e \<Rightarrow> Inl e
         | Inr newProvenance \<Rightarrow>
             if length oldProvenance \<noteq> length newProvenance
             then (let difference = setSubtract oldProvenance newProvenance;
                       indexes = difference
                   in messageError ''IRTypeAttributesNotPropagated'' (length difference) indexes)
             else Inr ())))"

subsection \<open>The heap of graph objects\<close>

text \<open>
  A graph object is named by its address in the heap, a list that only grows:
  \<^verbatim>\<open>new TypeGraph(...)\<close> appends an object, a method that assigns to a field of an object
  updates the heap at the object's address.
\<close>

type_synonym gref = nat

type_synonym heap = "TypeGraph list"

definition heap_new :: "heap \<Rightarrow> TypeGraph \<Rightarrow> gref \<times> heap" where
  "heap_new h g = (length h, h @ [g])"

text \<open>
  Modelled from the spec: the constructors of \<^verbatim>\<open>GraphRewriteBuilder\<close> and
  \<^verbatim>\<open>GraphRemapBuilder\<close> (GraphRewriting.ts), \<^verbatim>\<open>removeIndirectionIntersections\<close>
  (Type/TypeGraphUtils.ts) and \<^verbatim>\<open>getNoStringTypeMapping\<close> (Type/TypeBuilderUtils.ts) are not
  among the sources; they are parameters. A builder is made from the old graph and the
  arguments the engine passes on, in the order of the source; the corrective pass gets the
  new graph, the string type mapping and the debug flag, and returns a graph.
\<close>

record Env =
  new_GraphRewriteBuilder ::
    "TypeGraph \<Rightarrow> StringTypeMapping \<Rightarrow> bool \<Rightarrow> bool \<Rightarrow> Type list list \<Rightarrow> bool \<Rightarrow> Replacer \<Rightarrow> Builder"
  new_GraphRemapBuilder ::
    "TypeGraph \<Rightarrow> StringTypeMapping \<Rightarrow> bool \<Rightarrow> bool \<Rightarrow> (Type \<times> Type) list \<Rightarrow> bool \<Rightarrow> Builder"
  removeIndirectionIntersections ::
    "heap \<Rightarrow> gref \<Rightarrow> StringTypeMapping \<Rightarrow> bool \<Rightarrow> error + gref \<times> heap"
  getNoStringTypeMapping :: StringTypeMapping

text \<open>
  Modelled from the spec: \<^verbatim>\<open>finish\<close> of the builder. Unless its reconstruction fails, it
  finalizes the new graph, that is, freezes the graph it was given with the top-levels,
  nodes and attributes it has built, and returns that graph.
\<close>

definition finish :: "heap \<Rightarrow> Builder \<Rightarrow> gref \<Rightarrow> error + gref \<times> heap" where
  "finish h builder typeGraph =
     (case b_failure builder of
        Some e \<Rightarrow> Inl e
      | None \<Rightarrow>
          (case freeze (h ! typeGraph) (b_topLevels builder) (b_types builder)
                  (b_typeAttributes builder) of
             Inl e \<Rightarrow> Inl e
           | Inr g \<Rightarrow> Inr (typeGraph, h[typeGraph := g])))"

subsection \<open>rewrite, remap, garbageCollect and rewriteFixedPoint\<close>

text \<open>
  The methods take the heap and the address of the receiver, and return the address of
  the graph they return together with the heap they leave. \<^verbatim>\<open>printRewrite\<close> and
  \<^verbatim>\<open>printGraph\<close> only write to the console and are left out; the title of a rewrite is
  used by nothing else.
\<close>

definition rewrite ::
  "Env \<Rightarrow> heap \<Rightarrow> gref \<Rightarrow> string \<Rightarrow> StringTypeMapping \<Rightarrow> bool \<Rightarrow> Type list list \<Rightarrow> bool
     \<Rightarrow> Replacer \<Rightarrow> bool \<Rightarrow> error + gref \<times> heap" where
  "rewrite env h this title stringTypeMapping alphabetizeProperties replacementGroups
     debugPrintReconstitution replacer force =
     (if \<not> force \<and> length replacementGroups = 0 then Inr (this, h)
      else
        (let builder = new_GraphRewriteBuilder env (h ! this) stringTypeMapping
                         alphabetizeProperties (g_haveProvenanceAttributes (h ! this))
                         replacementGroups debugPrintReconstitution replacer;
             (typeGraph, h1) = heap_new h (new_TypeGraph builder (serial (h ! this) + 1)
                                             (g_haveProvenanceAttributes (h ! this)))
         in case finish h1 builder typeGraph of
              Inl e \<Rightarrow> Inl e
            | Inr (newGraph, h2) \<Rightarrow>
           (case checkLostTypeAttributes (h2 ! this) builder (h2 ! newGraph) of
              Inl e \<Rightarrow> Inl e
            | Inr _ \<Rightarrow>
                (let h3 = (if g_printOnRewrite (h2 ! this)
                           then h2[newGraph := setPrintOnRewrite (h2 ! newGraph)] else h2)
                 in if \<not> didAddForwardingIntersection builder then Inr (newGraph, h3)
                    else removeIndirectionIntersections env h3 newGraph stringTypeMapping
                           debugPrintReconstitution))))"

definition remap ::
  "Env \<Rightarrow> heap \<Rightarrow> gref \<Rightarrow> string \<Rightarrow> StringTypeMapping \<Rightarrow> bool \<Rightarrow> (Type \<times> Type) list \<Rightarrow> bool
     \<Rightarrow> bool \<Rightarrow> error + gref \<times> heap" where
  "remap env h this title stringTypeMapping alphabetizeProperties map_arg debugPrintRemapping force =
     (if \<not> force \<and> length map_arg = 0 then Inr (this, h)
      else
        (let builder = new_GraphRemapBuilder env (h ! this) stringTypeMapping
                         alphabetizeProperties (g_haveProvenanceAttributes (h ! this))
                         map_arg debugPrintRemapping;
             (typeGraph, h1) = heap_new h (new_TypeGraph builder (serial (h ! this) + 1)
                                             (g_haveProvenanceAttributes (h ! this)))
         in case finish h1 builder typeGraph of
              Inl e \<Rightarrow> Inl e
            | Inr (newGraph, h2) \<Rightarrow>
           (case checkLostTypeAttributes (h2 ! this) builder (h2 ! newGraph) of
              Inl e \<Rightarrow> Inl e
            | Inr _ \<Rightarrow>
                (let h3 = (if g_printOnRewrite (h2 ! this)
                           then h2[newGraph := setPrintOnRewrite (h2 ! newGraph)] else h2)
                 in case assert (\<not> didAddForwardingIntersection builder) ''Assertion failed'' of
                      Inl e \<Rightarrow> Inl e
                    | Inr _ \<Rightarrow> Inr (newGraph, h3)))))"

definition garbageCollect :: "Env \<Rightarrow> heap \<Rightarrow> gref \<Rightarrow> bool \<Rightarrow> bool \<Rightarrow> error + gref \<times> heap" where
  "garbageCollect env h this alphabetizeProperties debugPrintReconstitution =
     (case remap env h this ''GC'' (getNoStringTypeMapping env) alphabetizeProperties []
             debugPrintReconstitution True of
        Inl e \<Rightarrow> Inl e
      | Inr (newGraph, h') \<Rightarrow> Inr (newGraph, h'))"

text \<open>
  The loop \<^verbatim>\<open>for (;;)\<close> of \<^verbatim>\<open>rewriteFixedPoint\<close>, from the state of the variable
  \<^verbatim>\<open>graph\<close> and the heap; \<open>None\<close> is the loop that never returns.
\<close>

partial_function (option) rewriteFixedPoint_loop ::
  "Env \<Rightarrow> gref \<Rightarrow> bool \<Rightarrow> bool \<Rightarrow> gref \<Rightarrow> heap \<Rightarrow> (error + gref \<times> heap) option" where
  "rewriteFixedPoint_loop env this alphabetizeProperties debugPrintReconstitution graph h =
     (case rewrite env h this ''fixed-point'' (getNoStringTypeMapping env) alphabetizeProperties []
             debugPrintReconstitution mustNotHappen True of
        Inl e \<Rightarrow> Some (Inl e)
      | Inr (newGraph, h') \<Rightarrow>
          (case allTypesUnordered (h' ! graph) of
             Inl e \<Rightarrow> Some (Inl e)
           | Inr graphTypes \<Rightarrow>
          (case allTypesUnordered (h' ! newGraph) of
             Inl e \<Rightarrow> Some (Inl e)
           | Inr newGraphTypes \<Rightarrow>
               if length graphTypes = length newGraphTypes then Some (Inr (graph, h'))
               else rewriteFixedPoint_loop env this alphabetizeProperties
                      debugPrintReconstitution newGraph h')))"

definition rewriteFixedPoint ::
  "Env \<Rightarrow> heap \<Rightarrow> gref \<Rightarrow> bool \<Rightarrow> bool \<Rightarrow> (error + gref \<times> heap) option" where
  "rewriteFixedPoint env h this alphabetizeProperties debugPrintReconstitution =
     rewriteFixedPoint_loop env this alphabetizeProperties debugPrintReconstitution this h"

section \<open>Scenarios and example inputs\<close>

text \<open>
  The scenario of two writes and a read: \<^verbatim>\<open>set(k, t, v1); set(k, t, v2); tryGet(k, t)\<close>.
\<close>

definition set_twice_then_tryGet ::
  "'v TypeAttributeKind \<Rightarrow> Type \<Rightarrow> 'v \<Rightarrow> 'v \<Rightarrow> 'v TypeAttributeStore \<Rightarrow> error + 'v option" where
  "set_twice_then_tryGet k t v1 v2 s =
     (case store_set k t v1 s of
        Inl e \<Rightarrow> Inl e
      | Inr s1 \<Rightarrow> (case store_set k t v2 s1 of Inl e \<Rightarrow> Inl e | Inr s2 \<Rightarrow> tryGet k t s2))"

text \<open>A node of generation 0 at index 2, and the empty attribute store of that generation.\<close>

definition ex_node :: Type where
  "ex_node = \<lparr>typeRef = \<lparr>tref_serial = 0, tref_index = 2\<rparr>, kind = ''class'', childRefs = []\<rparr>"

definition ex_store :: "AttrValue TypeAttributeStore" where
  "ex_store = new_TypeAttributeStore 0 []"

section \<open>Notions used to state the properties\<close>

text \<open>
  The states a graph object can be in: a frozen graph has its node array and its attribute
  store. A new graph is open, and \<^verbatim>\<open>freeze\<close> sets both before it clears the builder.
\<close>

definition TypeGraph_invariant :: "TypeGraph \<Rightarrow> bool" where
  "TypeGraph_invariant g =
     (if isFrozen g then g_types g \<noteq> None \<and> g_attributeStore g \<noteq> None else True)"

text \<open>
  The references handed to \<^verbatim>\<open>freeze\<close> belong to the graph: those of the nodes, and
  those of the top-levels.
\<close>

definition nodeRefs_validate :: "TypeGraph \<Rightarrow> Type list \<Rightarrow> bool" where
  "nodeRefs_validate g types = list_all (\<lambda>t. tref_serial (typeRef t) = serial g) types"

definition topLevelRefs_validate :: "TypeGraph \<Rightarrow> (string \<times> TypeRef) list \<Rightarrow> bool" where
  "topLevelRefs_validate g tops = list_all (\<lambda>(name, tref). tref_serial tref = serial g) tops"

text \<open>
  Reachability: the roots are the nodes of the top-levels, the edges lead from a node to
  its children.
\<close>

definition rootsOf :: "TypeGraph \<Rightarrow> Type set" where
  "rootsOf g = {t. Some t \<in> snd ` set (g_topLevels g)}"

definition childrenOf :: "TypeGraph \<Rightarrow> Type \<Rightarrow> Type set" where
  "childrenOf g t = (case getChildren g t of Inl e \<Rightarrow> {} | Inr cs \<Rightarrow> {c. Some c \<in> set cs})"

inductive_set reachable :: "TypeGraph \<Rightarrow> Type set" for g :: TypeGraph where
  root: "t \<in> rootsOf g \<Longrightarrow> t \<in> reachable g"
| child: "t \<in> reachable g \<Longrightarrow> c \<in> childrenOf g t \<Longrightarrow> c \<in> reachable g"

text \<open>An open graph of generation 0, and a top-level reference of generation 1.\<close>

definition ex_builder :: Builder where
  "ex_builder = \<lparr>b_topLevels = [], b_types = [], b_typeAttributes = [],
                  lostTypeAttributes = False, didAddForwardingIntersection = False,
                  b_failure = None\<rparr>"

definition ex_open_graph :: TypeGraph where
  "ex_open_graph = new_TypeGraph ex_builder 0 True"

definition ex_foreign_topLevels :: "(string \<times> TypeRef) list" where
  "ex_foreign_topLevels = [(''R'', \<lparr>tref_serial = 1, tref_index = 0\<rparr>)]"

text \<open>
  An example of the collaborators. The builder sweeps once: it rebuilds, for the next
  generation, the node at index 0 (the top-level \<^verbatim>\<open>R\<close>) and every node that some node of
  the old array has as a child, and leaves the others out. It adds no forwarding
  intersection, and the corrective pass has nothing to do.
\<close>

definition ex_retag :: "nat \<Rightarrow> Type \<Rightarrow> Type" where
  "ex_retag n t =
     t\<lparr>typeRef := (typeRef t)\<lparr>tref_serial := n\<rparr>,
       childRefs := map (\<lambda>r. r\<lparr>tref_serial := n\<rparr>) (childRefs t)\<rparr>"

definition ex_referenced :: "Type list \<Rightarrow> Type \<Rightarrow> bool" where
  "ex_referenced ts t =
     (index t = 0 \<or> list_ex (\<lambda>p. list_ex (\<lambda>r. tref_index r = index t) (childRefs p)) ts)"

definition ex_sweep_builder :: "TypeGraph \<Rightarrow> Builder" where
  "ex_sweep_builder g =
     \<lparr>b_topLevels = [(''R'', \<lparr>tref_serial = serial g + 1, tref_index = 0\<rparr>)],
      b_types = (case g_types g of
                   None \<Rightarrow> []
                 | Some ts \<Rightarrow> map (ex_retag (serial g + 1)) (filter (ex_referenced ts) ts)),
      b_typeAttributes = [],
      lostTypeAttributes = False, didAddForwardingIntersection = False, b_failure = None\<rparr>"

definition ex_env :: Env where
  "ex_env =
     \<lparr>new_GraphRewriteBuilder =
        (\<lambda>g stringTypeMapping alphabetizeProperties haveProvenance groups debugFlag replacer.
           ex_sweep_builder g),
      new_GraphRemapBuilder =
        (\<lambda>g stringTypeMapping alphabetizeProperties haveProvenance map_arg debugFlag.
           ex_sweep_builder g),
      removeIndirectionIntersections = (\<lambda>h newGraph stringTypeMapping debugFlag. Inr (newGraph, h)),
      getNoStringTypeMapping = []\<rparr>"

text \<open>
  A frozen graph of generation \<open>n\<close> without provenance tracking: the top-level \<^verbatim>\<open>R\<close> is
  node 0; node 2 has node 1 as its child; nothing refers to node 2. And the same graph
  after one and after two sweeps.
\<close>

definition ex_leaf :: "nat \<Rightarrow> nat \<Rightarrow> Type" where
  "ex_leaf n i = \<lparr>typeRef = \<lparr>tref_serial = n, tref_index = i\<rparr>, kind = ''class'', childRefs = []\<rparr>"

definition ex_parent :: "nat \<Rightarrow> nat \<Rightarrow> nat \<Rightarrow> Type" where
  "ex_parent n i c =
     \<lparr>typeRef = \<lparr>tref_serial = n, tref_index = i\<rparr>, kind = ''class'',
      childRefs = [\<lparr>tref_serial = n, tref_index = c\<rparr>]\<rparr>"

definition ex_frozen :: "nat \<Rightarrow> Type list \<Rightarrow> TypeGraph" where
  "ex_frozen n ts =
     \<lparr>g_typeBuilder = None,
      g_attributeStore = Some (new_TypeAttributeStore n []),
      g_topLevels = [(''R'', Some (ex_leaf n 0))],
      g_types = Some ts,
      g_printOnRewrite = False, serial = n, g_haveProvenanceAttributes = False\<rparr>"

definition ex_graph3 :: TypeGraph where
  "ex_graph3 = ex_frozen 0 [ex_leaf 0 0, ex_leaf 0 1, ex_parent 0 2 1]"

definition ex_graph2 :: TypeGraph where
  "ex_graph2 = ex_frozen 1 [ex_leaf 1 0, ex_leaf 1 1]"

definition ex_graph1 :: TypeGraph where
  "ex_graph1 = ex_frozen 2 [ex_leaf 2 0]"

text \<open>
  The number of nodes that a forced rewrite without groups, as \<^verbatim>\<open>rewriteFixedPoint\<close>
  runs it, gives the graph at an address.
\<close>

definition forced_rewrite_count :: "Env \<Rightarrow> heap \<Rightarrow> gref \<Rightarrow> nat option" where
  "forced_rewrite_count env h a =
     (case rewrite env h a ''fixed-point'' (getNoStringTypeMapping env) False [] False
             mustNotHappen True of
        Inl e \<Rightarrow> None
      | Inr (r, h') \<Rightarrow>
          (case allTypesUnordered (h' ! r) of Inl e \<Rightarrow> None | Inr ts \<Rightarrow> Some (length ts)))"

text \<open>
  A frozen graph whose references resolve: the child references of every node of the
  array belong to the graph and lie inside the array, and every top-level is a node of
  the array.
\<close>

definition wellFormedGraph :: "TypeGraph \<Rightarrow> bool" where
  "wellFormedGraph g =
     (isFrozen g \<and>
      (case g_types g of
         None \<Rightarrow> False
       | Some ts \<Rightarrow>
           list_all (\<lambda>t. list_all (\<lambda>r. tref_serial r = serial g \<and> tref_index r < length ts)
                            (childRefs t)) ts
           \<and> list_all (\<lambda>(name, t). case t of None \<Rightarrow> False | Some t' \<Rightarrow> t' \<in> set ts)
                 (g_topLevels g)))"

text \<open>
  The invariants of the traversal. Every node of \<^verbatim>\<open>seen\<close> outside \<open>S\<close> (the nodes whose
  children are still being visited) has all its children in \<^verbatim>\<open>seen\<close>; \<^verbatim>\<open>seen\<close> holds
  reachable nodes only, and \<^verbatim>\<open>types\<close> holds, once each, the nodes of \<^verbatim>\<open>seen\<close> that the
  predicate requires. A visit returns a state that is again good, has grown, holds the
  nodes it was asked to visit, and keeps the first invariant for every \<open>S\<close>.
\<close>

definition closedExcept :: "TypeGraph \<Rightarrow> Type set \<Rightarrow> Type set \<Rightarrow> bool" where
  "closedExcept g seen S = (\<forall>x\<in>seen. x \<in> S \<or> childrenOf g x \<subseteq> seen)"

definition visit_ok :: "TypeGraph \<Rightarrow> (Type \<Rightarrow> bool) option \<Rightarrow> Type list \<times> Type list \<Rightarrow> bool" where
  "visit_ok g p st =
     (set (fst st) \<subseteq> reachable g \<and> distinct (snd st)
      \<and> set (snd st) = {x \<in> set (fst st). required p x})"

definition visit_step ::
  "TypeGraph \<Rightarrow> (Type \<Rightarrow> bool) option \<Rightarrow> Type list \<times> Type list \<Rightarrow> Type set
     \<Rightarrow> error + Type list \<times> Type list \<Rightarrow> bool" where
  "visit_step g p st must r =
     (\<exists>st'. r = Inr st' \<and> visit_ok g p st' \<and> set (fst st) \<subseteq> set (fst st')
            \<and> must \<subseteq> set (fst st')
            \<and> (\<forall>S. closedExcept g (set (fst st)) S \<longrightarrow> closedExcept g (set (fst st')) S))"

text \<open>
  A frozen graph of generation 0 with a cycle: the top-level \<^verbatim>\<open>R\<close> is the class A; A has
  the children B and C; the union B has the children A and C; the string C has none; the
  class D is in the node array, and nothing leads to it. The predicate is
  \<^verbatim>\<open>isNamedType\<close> as the type model defines it, by the kind of the node.
\<close>

definition ex_ref :: "nat \<Rightarrow> TypeRef" where
  "ex_ref i = \<lparr>tref_serial = 0, tref_index = i\<rparr>"

definition ex_A :: Type where
  "ex_A = \<lparr>typeRef = ex_ref 0, kind = ''class'', childRefs = [ex_ref 1, ex_ref 2]\<rparr>"

definition ex_B :: Type where
  "ex_B = \<lparr>typeRef = ex_ref 1, kind = ''union'', childRefs = [ex_ref 0, ex_ref 2]\<rparr>"

definition ex_C :: Type where
  "ex_C = \<lparr>typeRef = ex_ref 2, kind = ''string'', childRefs = []\<rparr>"

definition ex_D :: Type where
  "ex_D = \<lparr>typeRef = ex_ref 3, kind = ''class'', childRefs = []\<rparr>"

definition ex_cyclic :: TypeGraph where
  "ex_cyclic =
     \<lparr>g_typeBuilder = None,
      g_attributeStore = Some (new_TypeAttributeStore 0 []),
      g_topLevels = [(''R'', Some ex_A)],
      g_types = Some [ex_A, ex_B, ex_C, ex_D],
      g_printOnRewrite = False, serial = 0, g_haveProvenanceAttributes = False\<rparr>"

definition ex_isNamedType :: "Type \<Rightarrow> bool" where
  "ex_isNamedType t = (kind t \<in> set [''class'', ''union'', ''enum'', ''object''])"

text \<open>
  The provenance set of a node is what the attribute array of the graph holds for the
  index of the node under the provenance kind, and empty when the slot or the entry is
  absent. The provenance union of a graph is the union of the provenance sets of the
  nodes of its node array.
\<close>

definition nodeProvenance :: "TypeGraph \<Rightarrow> Type \<Rightarrow> int set" where
  "nodeProvenance g t =
     (case g_attributeStore g of
        None \<Rightarrow> {}
      | Some s \<Rightarrow>
          (case array_get (store_values s) (index t) of
             None \<Rightarrow> {}
           | Some attributes \<Rightarrow>
               (case map_of attributes (kind_name provenanceTypeAttributeKind) of
                  None \<Rightarrow> {}
                | Some v \<Rightarrow> set (provenanceSet v))))"

definition provenanceUnion :: "TypeGraph \<Rightarrow> int set" where
  "provenanceUnion g =
     (case g_types g of None \<Rightarrow> {} | Some ts \<Rightarrow> (\<Union>t\<in>set ts. nodeProvenance g t))"

text \<open>
  A graph that the check can audit: it is frozen, it was constructed with provenance
  tracking, and the references of its nodes belong to the graph of its attribute store.
  Every graph that \<^verbatim>\<open>freeze\<close> produces with provenance tracking is one.
\<close>

definition auditable :: "TypeGraph \<Rightarrow> bool" where
  "auditable g =
     (isFrozen g \<and> g_haveProvenanceAttributes g \<and>
      (case g_types g of
         None \<Rightarrow> False
       | Some ts \<Rightarrow>
           (case g_attributeStore g of
              None \<Rightarrow> False
            | Some s \<Rightarrow> list_all (\<lambda>t. tref_serial (typeRef t) = store_typeGraph s) ts)))"



text \<open>
  Graphs with provenance tracking: a frozen graph of generation \<open>n\<close> with the two nodes 0
  and 1 and a given attribute array; the top-level \<^verbatim>\<open>R\<close> is node 0. And collaborators
  whose builder copies every node into the next generation and gives the new graph a
  given attribute array, as a replacer does that propagates some markers and not others.
\<close>

definition ex_prov :: "int list \<Rightarrow> AttrValue TypeAttributes option" where
  "ex_prov ms = Some [(''provenance'', ProvenanceValue ms)]"

definition ex_tracked :: "nat \<Rightarrow> AttrValue TypeAttributes option list \<Rightarrow> TypeGraph" where
  "ex_tracked n attrs =
     \<lparr>g_typeBuilder = None,
      g_attributeStore = Some (new_TypeAttributeStore n attrs),
      g_topLevels = [(''R'', Some (ex_leaf n 0))],
      g_types = Some [ex_leaf n 0, ex_leaf n 1],
      g_printOnRewrite = False, serial = n, g_haveProvenanceAttributes = True\<rparr>"

definition ex_copy_builder :: "AttrValue TypeAttributes option list \<Rightarrow> TypeGraph \<Rightarrow> Builder" where
  "ex_copy_builder attrs g =
     \<lparr>b_topLevels = [(''R'', \<lparr>tref_serial = serial g + 1, tref_index = 0\<rparr>)],
      b_types = (case g_types g of
                   None \<Rightarrow> []
                 | Some ts \<Rightarrow> map (ex_retag (serial g + 1)) ts),
      b_typeAttributes = attrs,
      lostTypeAttributes = False, didAddForwardingIntersection = False, b_failure = None\<rparr>"

definition ex_copy_env :: "AttrValue TypeAttributes option list \<Rightarrow> Env" where
  "ex_copy_env attrs =
     \<lparr>new_GraphRewriteBuilder =
        (\<lambda>g stringTypeMapping alphabetizeProperties haveProvenance groups debugFlag replacer.
           ex_copy_builder attrs g),
      new_GraphRemapBuilder =
        (\<lambda>g stringTypeMapping alphabetizeProperties haveProvenance map_arg debugFlag.
           ex_copy_builder attrs g),
      removeIndirectionIntersections = (\<lambda>h newGraph stringTypeMapping debugFlag. Inr (newGraph, h)),
      getNoStringTypeMapping = []\<rparr>"

text \<open>
  The markers that a new graph has lost: those of the provenance union of the old graph
  that are not in the provenance union of the new one. A result reports them when it is
  the attributes-not-propagated error with their number and a duplicate-free list of
  exactly these markers; it reports no lost markers when it is not that error at all.
\<close>

definition lostMarkers :: "TypeGraph \<Rightarrow> TypeGraph \<Rightarrow> int set" where
  "lostMarkers g g' = provenanceUnion g - provenanceUnion g'"

definition reportsLostMarkers :: "TypeGraph \<Rightarrow> TypeGraph \<Rightarrow> error + gref \<times> heap \<Rightarrow> bool" where
  "reportsLostMarkers g g' res =
     (\<exists>idx. res = Inl (MessageError ''IRTypeAttributesNotPropagated'' (card (lostMarkers g g')) idx)
            \<and> set idx = lostMarkers g g' \<and> distinct idx)"

definition reportsNoLostMarkers :: "error + gref \<times> heap \<Rightarrow> bool" where
  "reportsNoLostMarkers res =
     (\<forall>count idx. res \<noteq> Inl (MessageError ''IRTypeAttributesNotPropagated'' count idx))"

section \<open>Properties of the attribute store\<close>

lemma growValues_eq: "growValues i vals = vals @ replicate (Suc i - length vals) None"
proof (induction i vals rule: growValues.induct)
  case (1 i vals)
  show ?case
  proof (cases "i \<ge> length vals")
    case True
    then have "growValues i vals = growValues i (vals @ [None])"
      by (subst growValues.simps) simp
    also have "\<dots> = (vals @ [None]) @ replicate (Suc i - length (vals @ [None])) None"
      using 1 True by simp
    also have "\<dots> = vals @ replicate (Suc i - length vals) None"
      using True by (simp add: Suc_diff_le replicate_app_Cons_same)
    finally show ?thesis .
  next
    case False
    then show ?thesis by (subst growValues.simps) simp
  qed
qed

lemma length_growValues: "i < length (growValues i vals)"
  by (simp add: growValues_eq)

lemma map_of_Map_set_same: "map_of (Map_set k v m) k = Some v"
  by (induction m) auto

lemma store_set_tryGet:
  assumes "store_set k t v s = Inr s'"
  shows "tryGet k t s' = Inr (Some v)" and "store_typeGraph s' = store_typeGraph s"
  using assms
  by (auto simp: store_set_def tryGet_def attributesForType_def getTypeIndex_def Let_def
      array_get_def tryGetInMap_def setInMap_def Map_get_def map_of_Map_set_same
      length_growValues emptyTypeAttributes_def
      split: sum.splits option.splits if_splits)

lemma store_set_succeeds:
  "tref_serial (typeRef t) = store_typeGraph s \<Longrightarrow> \<exists>s'. store_set k t v s = Inr s'"
  by (auto simp: store_set_def attributesForType_def getTypeIndex_def Let_def
      assertTypeRefGraph_def assert_def split: sum.splits option.splits)

text \<open>
  C1, as amended. For every attribute kind \<open>k\<close>, node \<open>t\<close> whose reference belongs to
  the store's graph, and values \<open>v1\<close>, \<open>v2\<close>: after \<^verbatim>\<open>set(k, t, v1)\<close> and
  \<^verbatim>\<open>set(k, t, v2)\<close>, \<^verbatim>\<open>tryGet(k, t)\<close> is \<open>v2\<close>. The second value is written over the
  first under the key \<open>k\<close>; the merge rule of the kind is not consulted.
\<close>

theorem set_twice_last_write_wins:
  assumes "tref_serial (typeRef t) = store_typeGraph s"
  shows "set_twice_then_tryGet k t v1 v2 s = Inr (Some v2)"
proof -
  from store_set_succeeds[OF assms] obtain s1 where s1: "store_set k t v1 s = Inr s1" by blast
  from store_set_tryGet(2)[OF s1] assms have "tref_serial (typeRef t) = store_typeGraph s1" by simp
  from store_set_succeeds[OF this] obtain s2 where s2: "store_set k t v2 s1 = Inr s2" by blast
  from store_set_tryGet(1)[OF s2] s1 s2 show ?thesis
    by (simp add: set_twice_then_tryGet_def)
qed

theorem set_twice_last_write_wins_witness:
  "tref_serial (typeRef ex_node) = store_typeGraph ex_store
   \<and> set_twice_then_tryGet provenanceTypeAttributeKind ex_node
        (ProvenanceValue [1]) (ProvenanceValue [2]) ex_store = Inr (Some (ProvenanceValue [2]))"
  using set_twice_last_write_wins[of ex_node ex_store provenanceTypeAttributeKind
      "ProvenanceValue [1]" "ProvenanceValue [2]"]
  by (simp add: ex_node_def ex_store_def new_TypeAttributeStore_def)

text \<open>
  C1, as stated, fails: the provenance kind merges by union, the union of \<open>{1}\<close> and
  \<open>{2}\<close> is \<open>{1, 2}\<close>, and the store answers \<open>{2}\<close> after the two writes.
\<close>

theorem set_twice_merge_counterexample:
  "set_twice_then_tryGet provenanceTypeAttributeKind ex_node
        (ProvenanceValue [1]) (ProvenanceValue [2]) ex_store
     = Inr (Some (ProvenanceValue [2]))
   \<and> combine provenanceTypeAttributeKind [ProvenanceValue [1], ProvenanceValue [2]]
     = ProvenanceValue [1, 2]
   \<and> set_twice_then_tryGet provenanceTypeAttributeKind ex_node
        (ProvenanceValue [1]) (ProvenanceValue [2]) ex_store
     \<noteq> Inr (Some (combine provenanceTypeAttributeKind [ProvenanceValue [1], ProvenanceValue [2]]))"
  by (simp add: set_twice_then_tryGet_def store_set_def getTypeIndex_def assertTypeRefGraph_def
      assert_def typeRefIndex_def attributesForType_def array_get_def growValues_eq
      setInMap_def tryGet_def tryGetInMap_def Map_get_def emptyTypeAttributes_def
      provenanceTypeAttributeKind_def setUnionManyInto_def Set_add_def
      ex_node_def ex_store_def new_TypeAttributeStore_def Let_def)

section \<open>Properties of freeze and the queries\<close>

lemma assertTypeRefs_iff:
  "assertTypeRefs ts n = (if list_all (\<lambda>t. tref_serial (typeRef t) = n) ts then Inr ()
                          else Inl (InternalError ''Mixing the wrong type reference and graph''))"
  by (induction ts) (auto simp: assertTypeRefGraph_def assert_def)

lemma mapMap_deref_frozen:
  assumes "g_typeBuilder g = None" "g_types g = Some ts"
  shows "mapMap tops (\<lambda>tref. derefTypeRef tref g) =
           (if list_all (\<lambda>(name, tref). tref_serial tref = serial g) tops
            then Inr (map (\<lambda>(name, tref). (name, if tref_index tref < length ts
                                                   then Some (ts ! tref_index tref) else None)) tops)
            else Inl (InternalError ''Mixing the wrong type reference and graph''))"
  using assms
  by (induction tops)
     (auto simp: derefTypeRef_def assertTypeRefGraph_def assert_def typeAtIndex_def defined_def
        typeRefIndex_def)

lemma freeze_eq:
  "freeze g tops ts attrs =
     (if isFrozen g then Inl (InternalError ''Tried to freeze TypeGraph a second time'')
      else if \<not> nodeRefs_validate g ts \<or> \<not> topLevelRefs_validate g tops
      then Inl (InternalError ''Mixing the wrong type reference and graph'')
      else Inr (g\<lparr>g_typeBuilder := None,
                  g_attributeStore := Some (new_TypeAttributeStore (serial g) attrs),
                  g_topLevels := map (\<lambda>(name, tref). (name, if tref_index tref < length ts
                                                   then Some (ts ! tref_index tref) else None)) tops,
                  g_types := Some ts\<rparr>))"
  by (simp add: freeze_def assert_def assertTypeRefs_iff Let_def mapMap_deref_frozen
      nodeRefs_validate_def topLevelRefs_validate_def)

lemma freeze_result:
  assumes "freeze g tops ts attrs = Inr g'"
  shows "isFrozen g'" "g_types g' = Some ts"
    "g_attributeStore g' = Some (new_TypeAttributeStore (serial g) attrs)"
    "serial g' = serial g" "g_haveProvenanceAttributes g' = g_haveProvenanceAttributes g"
    "g_printOnRewrite g' = g_printOnRewrite g" "TypeGraph_invariant g'"
  using assms by (auto simp: freeze_eq isFrozen_def TypeGraph_invariant_def split: if_splits)

text \<open>
  C8, as amended. \<^verbatim>\<open>freeze\<close> aborts with a fatal internal error on a graph that is
  already frozen; on an open graph it succeeds when the references of the nodes and those
  of the top-levels all belong to the graph, and it aborts exactly when the graph is frozen
  or one of these references belongs to another generation. \<^verbatim>\<open>topLevels\<close> and
  \<^verbatim>\<open>allTypesUnordered\<close> abort with a fatal internal error on a graph that has not been
  frozen, and succeed on a frozen graph.
\<close>

theorem freeze_and_queries_abort:
  "(isFrozen g \<longrightarrow>
      freeze g tops ts attrs = Inl (InternalError ''Tried to freeze TypeGraph a second time''))
   \<and> (\<not> isFrozen g \<and> nodeRefs_validate g ts \<and> topLevelRefs_validate g tops \<longrightarrow>
        (\<exists>g'. freeze g tops ts attrs = Inr g' \<and> isFrozen g' \<and> TypeGraph_invariant g'))
   \<and> ((\<exists>e. freeze g tops ts attrs = Inl e) \<longleftrightarrow>
        isFrozen g \<or> \<not> nodeRefs_validate g ts \<or> \<not> topLevelRefs_validate g tops)
   \<and> (\<not> isFrozen g \<longrightarrow>
        topLevels g = Inl (InternalError ''Cannot get top-levels from a non-frozen graph'')
        \<and> allTypesUnordered g
            = Inl (InternalError ''Tried to get all graph types before it was frozen''))
   \<and> (isFrozen g \<and> TypeGraph_invariant g \<longrightarrow>
        topLevels g = Inr (g_topLevels g) \<and> (\<exists>r. allTypesUnordered g = Inr r))"
  by (auto simp: freeze_eq topLevels_def allTypesUnordered_def assert_def defined_def
      TypeGraph_invariant_def isFrozen_def split: option.splits)

theorem freeze_and_queries_abort_witness:
  "\<not> isFrozen ex_open_graph \<and> nodeRefs_validate ex_open_graph [ex_node]
   \<and> topLevelRefs_validate ex_open_graph []
   \<and> (\<exists>g'. freeze ex_open_graph [] [ex_node] [] = Inr g' \<and> isFrozen g' \<and> TypeGraph_invariant g')
   \<and> topLevels ex_open_graph = Inl (InternalError ''Cannot get top-levels from a non-frozen graph'')"
  using freeze_and_queries_abort[of ex_open_graph "[]" "[ex_node]" "[]"]
  by (simp add: ex_open_graph_def new_TypeGraph_def isFrozen_def nodeRefs_validate_def
      topLevelRefs_validate_def ex_node_def)

text \<open>
  C8, as stated, fails: the graph is open and the reference of its only node belongs to it,
  yet \<^verbatim>\<open>freeze\<close> aborts, because the top-level reference belongs to generation 1.
\<close>

theorem freeze_foreign_topLevel_counterexample:
  "\<not> isFrozen ex_open_graph \<and> nodeRefs_validate ex_open_graph [ex_node]
   \<and> freeze ex_open_graph ex_foreign_topLevels [ex_node] []
       = Inl (InternalError ''Mixing the wrong type reference and graph'')"
  by (simp add: freeze_eq ex_open_graph_def new_TypeGraph_def isFrozen_def nodeRefs_validate_def
      topLevelRefs_validate_def ex_node_def ex_foreign_topLevels_def)

lemma distinct_foldl_Set_add: "distinct s \<Longrightarrow> distinct (foldl Set_add s xs)"
  by (induction xs arbitrary: s) (auto simp: Set_add_def)

lemma distinct_new_Set: "distinct (new_Set xs)"
  by (simp add: new_Set_def distinct_foldl_Set_add)

section \<open>Properties of rewrite, remap and garbageCollect\<close>

text \<open>
  C5. With an empty list of replacement groups and \<^verbatim>\<open>force = false\<close>, \<^verbatim>\<open>rewrite\<close> returns
  the very graph object it was called on, and the heap is as it was: no generation is
  created. Likewise \<^verbatim>\<open>remap\<close> with an empty map and \<^verbatim>\<open>force = false\<close>.
\<close>

theorem rewrite_remap_noop:
  "rewrite env h this title stringTypeMapping alphabetizeProperties [] debugFlag replacer False
     = Inr (this, h)
   \<and> remap env h this title stringTypeMapping alphabetizeProperties [] debugFlag False
     = Inr (this, h)"
  by (simp add: rewrite_def remap_def)

text \<open>
  C6. For every graph and every choice of the two flags, \<^verbatim>\<open>garbageCollect\<close> returns what
  \<^verbatim>\<open>remap\<close> returns for the empty map, \<^verbatim>\<open>force = true\<close> and the no-op string type
  mapping, under the title \<^verbatim>\<open>GC\<close> as under any other title.
\<close>

theorem garbageCollect_is_forced_remap:
  "garbageCollect env h this alphabetizeProperties debugFlag
     = remap env h this ''GC'' (getNoStringTypeMapping env) alphabetizeProperties [] debugFlag True
   \<and> garbageCollect env h this alphabetizeProperties debugFlag
     = remap env h this title (getNoStringTypeMapping env) alphabetizeProperties [] debugFlag True"
  by (simp add: garbageCollect_def remap_def split: sum.splits prod.splits)

lemma rewrite_forced_eq:
  assumes "this < length h" "force \<or> groups \<noteq> []"
  shows "rewrite env h this title stm alpha groups dbg repl force =
     (let g = h ! this;
          builder = new_GraphRewriteBuilder env g stm alpha (g_haveProvenanceAttributes g) groups dbg repl
      in case b_failure builder of
           Some e \<Rightarrow> Inl e
         | None \<Rightarrow>
        (case freeze (new_TypeGraph builder (serial g + 1) (g_haveProvenanceAttributes g))
                (b_topLevels builder) (b_types builder) (b_typeAttributes builder) of
           Inl e \<Rightarrow> Inl e
         | Inr g' \<Rightarrow>
        (case checkLostTypeAttributes g builder g' of
           Inl e \<Rightarrow> Inl e
         | Inr _ \<Rightarrow>
             (let h3 = h @ [if g_printOnRewrite g then setPrintOnRewrite g' else g']
              in if \<not> didAddForwardingIntersection builder then Inr (length h, h3)
                 else removeIndirectionIntersections env h3 (length h) stm dbg))))"
  using assms
  by (auto simp: rewrite_def heap_new_def finish_def Let_def nth_append
      split: option.splits sum.splits)

lemma remap_forced_eq:
  assumes "this < length h" "force \<or> m \<noteq> []"
  shows "remap env h this title stm alpha m dbg force =
     (let g = h ! this;
          builder = new_GraphRemapBuilder env g stm alpha (g_haveProvenanceAttributes g) m dbg
      in case b_failure builder of
           Some e \<Rightarrow> Inl e
         | None \<Rightarrow>
        (case freeze (new_TypeGraph builder (serial g + 1) (g_haveProvenanceAttributes g))
                (b_topLevels builder) (b_types builder) (b_typeAttributes builder) of
           Inl e \<Rightarrow> Inl e
         | Inr g' \<Rightarrow>
        (case checkLostTypeAttributes g builder g' of
           Inl e \<Rightarrow> Inl e
         | Inr _ \<Rightarrow>
             (let h3 = h @ [if g_printOnRewrite g then setPrintOnRewrite g' else g']
              in if didAddForwardingIntersection builder then Inl (InternalError ''Assertion failed'')
                 else Inr (length h, h3)))))"
  using assms
  by (auto simp: remap_def heap_new_def finish_def Let_def nth_append assert_def
      split: option.splits sum.splits)

text \<open>The error of the lost-attribute check is the error of the rewrite and of the remap.\<close>

lemma rewrite_reports_check_error:
  assumes "this < length h" "force \<or> groups \<noteq> []"
    and "new_GraphRewriteBuilder env (h ! this) stm alpha (g_haveProvenanceAttributes (h ! this))
           groups dbg repl = b"
    and "b_failure b = None"
    and "freeze (new_TypeGraph b (serial (h ! this) + 1) (g_haveProvenanceAttributes (h ! this)))
           (b_topLevels b) (b_types b) (b_typeAttributes b) = Inr g'"
    and "checkLostTypeAttributes (h ! this) b g' = Inl e"
  shows "rewrite env h this title stm alpha groups dbg repl force = Inl e"
  using assms(3-6) by (simp add: rewrite_forced_eq[OF assms(1,2)] Let_def)

lemma remap_reports_check_error:
  assumes "this < length h" "force \<or> m \<noteq> []"
    and "new_GraphRemapBuilder env (h ! this) stm alpha (g_haveProvenanceAttributes (h ! this))
           m dbg = b"
    and "b_failure b = None"
    and "freeze (new_TypeGraph b (serial (h ! this) + 1) (g_haveProvenanceAttributes (h ! this)))
           (b_topLevels b) (b_types b) (b_typeAttributes b) = Inr g'"
    and "checkLostTypeAttributes (h ! this) b g' = Inl e"
  shows "remap env h this title stm alpha m dbg force = Inl e"
  using assms(3-6) by (simp add: remap_forced_eq[OF assms(1,2)] Let_def)

lemma sweep_ex_frozen:
  "ex_sweep_builder (ex_frozen n ts) =
     \<lparr>b_topLevels = [(''R'', \<lparr>tref_serial = Suc n, tref_index = 0\<rparr>)],
      b_types = map (ex_retag (Suc n)) (filter (ex_referenced ts) ts), b_typeAttributes = [],
      lostTypeAttributes = False, didAddForwardingIntersection = False, b_failure = None\<rparr>"
  by (simp add: ex_sweep_builder_def ex_frozen_def)

lemma freeze_ex_frozen:
  assumes "ts \<noteq> []" "ts ! 0 = ex_leaf n 0" "list_all (\<lambda>t. tref_serial (typeRef t) = n) ts"
  shows "freeze (new_TypeGraph b n False) [(''R'', \<lparr>tref_serial = n, tref_index = 0\<rparr>)] ts []
           = Inr (ex_frozen n ts)"
  using assms
  by (simp add: freeze_eq new_TypeGraph_def isFrozen_def nodeRefs_validate_def
      topLevelRefs_validate_def ex_frozen_def)

lemma rewrite_ex_frozen:
  assumes "this < length h" "h ! this = ex_frozen n ts"
    and "map (ex_retag (Suc n)) (filter (ex_referenced ts) ts) = ts'"
    and "ts' \<noteq> []" "ts' ! 0 = ex_leaf (Suc n) 0"
    and "list_all (\<lambda>t. tref_serial (typeRef t) = Suc n) ts'"
  shows "rewrite ex_env h this title stm a [] d repl True = Inr (length h, h @ [ex_frozen (Suc n) ts'])"
proof -
  have env: "new_GraphRewriteBuilder ex_env g stm a p [] d repl = ex_sweep_builder g"
    "removeIndirectionIntersections ex_env = (\<lambda>h newGraph stringTypeMapping debugFlag. Inr (newGraph, h))"
    for g p
    by (simp_all add: ex_env_def)
  have fields: "serial (ex_frozen n ts) = n" "\<not> g_haveProvenanceAttributes (ex_frozen n ts)"
    "\<not> g_printOnRewrite (ex_frozen n ts)"
    by (simp_all add: ex_frozen_def)
  show ?thesis
    by (simp add: rewrite_forced_eq[OF assms(1)] Let_def assms(2) env fields sweep_ex_frozen
        assms(3) freeze_ex_frozen[OF assms(4,5,6)] checkLostTypeAttributes_def)
qed

lemma rewrite_ex3:
  assumes "0 < length h" "h ! 0 = ex_graph3"
  shows "rewrite ex_env h 0 title stm a [] d repl True = Inr (length h, h @ [ex_graph2])"
proof -
  have "rewrite ex_env h 0 title stm a [] d repl True
          = Inr (length h, h @ [ex_frozen (Suc 0) [ex_leaf (Suc 0) 0, ex_leaf (Suc 0) (Suc 0)]])"
    by (rule rewrite_ex_frozen[OF assms(1) assms(2)[unfolded ex_graph3_def]])
       (simp_all add: ex_referenced_def ex_retag_def ex_leaf_def ex_parent_def index_def
          typeRefIndex_def)
  then show ?thesis by (simp add: ex_graph2_def)
qed

lemma rewrite_ex2:
  assumes "Suc 0 < length h" "h ! Suc 0 = ex_graph2"
  shows "rewrite ex_env h (Suc 0) title stm a [] d repl True = Inr (length h, h @ [ex_graph1])"
proof -
  have "rewrite ex_env h (Suc 0) title stm a [] d repl True
          = Inr (length h, h @ [ex_frozen (Suc 1) [ex_leaf (Suc 1) 0]])"
    by (rule rewrite_ex_frozen[OF assms(1) assms(2)[unfolded ex_graph2_def]])
       (simp_all add: ex_referenced_def ex_retag_def ex_leaf_def ex_parent_def index_def
          typeRefIndex_def)
  then show ?thesis by (simp add: ex_graph1_def numeral_2_eq_2)
qed

lemma count3: "allTypesUnordered ex_graph3 = Inr [ex_leaf 0 0, ex_leaf 0 1, ex_parent 0 2 1]"
  by (simp add: allTypesUnordered_def ex_graph3_def ex_frozen_def isFrozen_def assert_def
      defined_def new_Set_def Set_add_def ex_leaf_def ex_parent_def)

lemma count2: "allTypesUnordered ex_graph2 = Inr [ex_leaf 1 0, ex_leaf 1 1]"
  by (simp add: allTypesUnordered_def ex_graph2_def ex_frozen_def isFrozen_def assert_def
      defined_def new_Set_def Set_add_def ex_leaf_def ex_parent_def)

lemma count1: "allTypesUnordered ex_graph1 = Inr [ex_leaf 2 0]"
  by (simp add: allTypesUnordered_def ex_graph1_def ex_frozen_def isFrozen_def assert_def
      defined_def new_Set_def Set_add_def ex_leaf_def ex_parent_def)

text \<open>
  C3, on the code. \<^verbatim>\<open>rewriteFixedPoint\<close> run on the three-node graph, with the builder that
  sweeps once per rewrite: the first iteration rewrites the receiver into a graph of two
  nodes; the second iteration rewrites the receiver again (its result has the receiver's
  serial plus one), finds two nodes again, and returns the graph of the first iteration.
  A forced rewrite of the returned graph has one node: its node count is not stable.
\<close>

theorem rewriteFixedPoint_rewrites_receiver_again:
  "rewriteFixedPoint ex_env [ex_graph3] 0 False False
     = Some (Inr (1, [ex_graph3, ex_graph2, ex_graph2]))
   \<and> allTypesUnordered ([ex_graph3, ex_graph2, ex_graph2] ! 1) = Inr [ex_leaf 1 0, ex_leaf 1 1]
   \<and> forced_rewrite_count ex_env [ex_graph3, ex_graph2, ex_graph2] 1 = Some 1
   \<and> serial ([ex_graph3, ex_graph2, ex_graph2] ! 2) = serial ex_graph3 + 1"
proof -
  have 1: "rewriteFixedPoint ex_env [ex_graph3] 0 False False
             = rewriteFixedPoint_loop ex_env 0 False False 1 [ex_graph3, ex_graph2]"
    unfolding rewriteFixedPoint_def
    by (subst rewriteFixedPoint_loop.simps) (simp add: rewrite_ex3 count3 count2)
  have 2: "rewriteFixedPoint_loop ex_env 0 False False 1 [ex_graph3, ex_graph2]
             = Some (Inr (1, [ex_graph3, ex_graph2, ex_graph2]))"
    by (subst rewriteFixedPoint_loop.simps) (simp add: rewrite_ex3 count3 count2)
  have 3: "forced_rewrite_count ex_env [ex_graph3, ex_graph2, ex_graph2] 1 = Some 1"
    by (simp add: forced_rewrite_count_def rewrite_ex2 count1)
  have 4: "serial ([ex_graph3, ex_graph2, ex_graph2] ! 2) = serial ex_graph3 + 1"
    by (simp add: ex_graph2_def ex_graph3_def ex_frozen_def)
  from 1 2 3 4 count2 show ?thesis by simp
qed

section \<open>Properties of the lost-attribute check\<close>

lemma distinct_setUnionManyInto: "distinct dest \<Longrightarrow> distinct (setUnionManyInto dest srcs)"
  unfolding setUnionManyInto_def
  by (induction srcs arbitrary: dest) (auto simp: distinct_foldl_Set_add)

lemma set_setUnionManyInto: "set (setUnionManyInto dest srcs) = set dest \<union> \<Union> (set ` set srcs)"
  unfolding setUnionManyInto_def
  by (induction srcs arbitrary: dest) (auto simp: set_foldl_Set_add)

lemma set_setSubtract: "set (setSubtract src diff) = set src - set diff"
  by (auto simp: setSubtract_def)

lemma distinct_setSubtract: "distinct src \<Longrightarrow> distinct (setSubtract src diff)"
  by (simp add: setSubtract_def)

lemma length_setSubtract: "distinct src \<Longrightarrow> length (setSubtract src diff) = card (set src - set diff)"
  using distinct_setSubtract[of src diff] set_setSubtract[of src diff] by (metis distinct_card)

text \<open>
  What \<^verbatim>\<open>allProvenance\<close> computes on an auditable graph: a duplicate-free list of the
  provenance union of the graph.
\<close>

lemma provenanceSets_nodes:
  assumes "g_attributeStore g = Some s"
  shows "list_all (\<lambda>t. tref_serial (typeRef t) = store_typeGraph s) ts \<Longrightarrow>
     \<exists>sets. provenanceSets s ts = Inr sets \<and> \<Union> (set ` set sets) = (\<Union>t\<in>set ts. nodeProvenance g t)"
proof (induction ts)
  case Nil
  then show ?case by simp
next
  case (Cons t ts)
  then obtain sets where sets: "provenanceSets s ts = Inr sets"
    "\<Union> (set ` set sets) = (\<Union>t\<in>set ts. nodeProvenance g t)" by auto
  from Cons.prems have v: "tref_serial (typeRef t) = store_typeGraph s" by simp
  have "\<exists>ms. view_tryGet provenanceTypeAttributeKind t s = Inr ms
              \<and> set (case ms of Some v \<Rightarrow> provenanceSet v | None \<Rightarrow> []) = nodeProvenance g t"
    using v assms
    by (auto simp: view_tryGet_def tryGet_def attributesForType_def getTypeIndex_def
        assertTypeRefGraph_def assert_def Let_def tryGetInMap_def Map_get_def
        nodeProvenance_def index_def emptyTypeAttributes_def
        split: option.splits)
  then obtain ms where ms: "view_tryGet provenanceTypeAttributeKind t s = Inr ms"
    "set (case ms of Some v \<Rightarrow> provenanceSet v | None \<Rightarrow> []) = nodeProvenance g t" by blast
  show ?case using sets ms by simp
qed

lemma allProvenance_union:
  assumes "auditable g"
  shows "\<exists>ps. allProvenance g = Inr ps \<and> distinct ps \<and> set ps = provenanceUnion g"
proof -
  from assms obtain ts s where ts: "g_types g = Some ts" and s: "g_attributeStore g = Some s"
    and v: "list_all (\<lambda>t. tref_serial (typeRef t) = store_typeGraph s) ts"
    and fr: "isFrozen g" and hp: "g_haveProvenanceAttributes g"
    by (auto simp: auditable_def split: option.splits)
  from v have "list_all (\<lambda>t. tref_serial (typeRef t) = store_typeGraph s) (new_Set ts)"
    by (simp add: list_all_iff set_new_Set)
  from provenanceSets_nodes[OF s this] obtain sets where
    sets: "provenanceSets s (new_Set ts) = Inr sets"
    "\<Union> (set ` set sets) = (\<Union>t\<in>set ts. nodeProvenance g t)"
    by (auto simp: set_new_Set)
  have "allProvenance g = Inr (setUnionManyInto [] sets)"
    using ts s fr hp sets(1)
    by (simp add: allProvenance_def assert_def attributeStore_def defined_def
        allTypesUnordered_def)
  moreover have "set (setUnionManyInto [] sets) = provenanceUnion g"
    by (simp add: set_setUnionManyInto sets(2) provenanceUnion_def ts)
  moreover have "distinct (setUnionManyInto [] sets)" by (simp add: distinct_setUnionManyInto)
  ultimately show ?thesis by blast
qed

lemma freeze_auditable:
  assumes "freeze g0 tops ts attrs = Inr g" "g_haveProvenanceAttributes g0"
  shows "auditable g"
proof -
  note r = freeze_result[OF assms(1)]
  from assms(1) have "list_all (\<lambda>t. tref_serial (typeRef t) = serial g0) ts"
    by (auto simp: freeze_eq nodeRefs_validate_def split: if_splits)
  with r assms(2) show ?thesis
    by (simp add: auditable_def new_TypeAttributeStore_def)
qed

text \<open>The check, in terms of the provenance unions of the two graphs.\<close>

lemma checkLost_unions:
  assumes "auditable g" "auditable g'" "\<not> lostTypeAttributes b"
  shows "\<exists>idx. set idx = provenanceUnion g - provenanceUnion g' \<and> distinct idx
           \<and> checkLostTypeAttributes g b g' =
               (if card (provenanceUnion g) \<noteq> card (provenanceUnion g')
                then Inl (MessageError ''IRTypeAttributesNotPropagated''
                            (card (provenanceUnion g - provenanceUnion g')) idx)
                else Inr ())"
proof -
  from allProvenance_union[OF assms(1)] obtain old where
    old: "allProvenance g = Inr old" "distinct old" "set old = provenanceUnion g" by blast
  from allProvenance_union[OF assms(2)] obtain new where
    new: "allProvenance g' = Inr new" "distinct new" "set new = provenanceUnion g'" by blast
  from assms(1) have hp: "g_haveProvenanceAttributes g" by (simp add: auditable_def)
  have len: "length old = card (provenanceUnion g)" "length new = card (provenanceUnion g')"
    using old new by (simp_all add: distinct_card[symmetric])
  have "checkLostTypeAttributes g b g' =
               (if card (provenanceUnion g) \<noteq> card (provenanceUnion g')
                then Inl (MessageError ''IRTypeAttributesNotPropagated''
                            (card (provenanceUnion g - provenanceUnion g')) (setSubtract old new))
                else Inr ())"
    using hp assms(3) old(1) new(1) len length_setSubtract[OF old(2), of new] old(3) new(3)
    by (simp add: checkLostTypeAttributes_def messageError_def Let_def)
  moreover have "set (setSubtract old new) = provenanceUnion g - provenanceUnion g'"
    by (simp add: set_setSubtract old(3) new(3))
  moreover have "distinct (setSubtract old new)" by (simp add: distinct_setSubtract old(2))
  ultimately show ?thesis by blast
qed


lemma finite_provenanceUnion: "auditable g \<Longrightarrow> finite (provenanceUnion g)"
  using allProvenance_union[of g] by (metis List.finite_set)

text \<open>
  C9, as amended. With provenance tracking on and a builder that does not flag lost
  attributes, the attributes-not-propagated error is raised if and only if the provenance
  unions of the old and of the new graph differ in cardinality. It carries the number and
  a list of exactly the old markers that are missing from the new union. No error is
  raised when the cardinalities agree, whatever the sets; and when the new union strictly
  includes the old one (every old marker kept, further markers added) the error is raised
  with count 0 and an empty list.
\<close>

theorem checkLost_iff_cardinalities_differ:
  assumes "auditable g" "auditable g'" "\<not> lostTypeAttributes b"
  shows "((\<exists>e. checkLostTypeAttributes g b g' = Inl e)
            \<longleftrightarrow> card (provenanceUnion g) \<noteq> card (provenanceUnion g'))
    \<and> (card (provenanceUnion g) \<noteq> card (provenanceUnion g') \<longrightarrow>
         (\<exists>idx. checkLostTypeAttributes g b g'
                   = Inl (MessageError ''IRTypeAttributesNotPropagated''
                            (card (provenanceUnion g - provenanceUnion g')) idx)
                \<and> set idx = provenanceUnion g - provenanceUnion g' \<and> distinct idx))
    \<and> (card (provenanceUnion g) = card (provenanceUnion g') \<longrightarrow>
         checkLostTypeAttributes g b g' = Inr ())
    \<and> (provenanceUnion g \<subset> provenanceUnion g' \<longrightarrow>
         checkLostTypeAttributes g b g'
           = Inl (MessageError ''IRTypeAttributesNotPropagated'' 0 []))"
proof -
  from checkLost_unions[OF assms] obtain idx where
    idx: "set idx = provenanceUnion g - provenanceUnion g'" "distinct idx"
    and eq: "checkLostTypeAttributes g b g' =
               (if card (provenanceUnion g) \<noteq> card (provenanceUnion g')
                then Inl (MessageError ''IRTypeAttributesNotPropagated''
                            (card (provenanceUnion g - provenanceUnion g')) idx)
                else Inr ())" by blast
  have strict: "card (provenanceUnion g) \<noteq> card (provenanceUnion g')
                  \<and> card (provenanceUnion g - provenanceUnion g') = 0 \<and> idx = []"
    if "provenanceUnion g \<subset> provenanceUnion g'"
  proof -
    from that finite_provenanceUnion[OF assms(2)]
    have "card (provenanceUnion g) < card (provenanceUnion g')" by (rule psubset_card_mono[rotated])
    moreover from that have e: "provenanceUnion g - provenanceUnion g' = {}" by auto
    moreover have "card (provenanceUnion g - provenanceUnion g') = 0" by (simp only: e card.empty)
    moreover have "idx = []"
    proof -
      from idx(1) e have "set idx = {}" by (simp only:)
      then show ?thesis by simp
    qed
    ultimately show ?thesis by simp
  qed
  show ?thesis
  proof (intro conjI impI)
    show "(\<exists>e. checkLostTypeAttributes g b g' = Inl e)
            \<longleftrightarrow> card (provenanceUnion g) \<noteq> card (provenanceUnion g')"
      by (simp add: eq)
    show "\<exists>idx. checkLostTypeAttributes g b g'
                   = Inl (MessageError ''IRTypeAttributesNotPropagated''
                            (card (provenanceUnion g - provenanceUnion g')) idx)
                \<and> set idx = provenanceUnion g - provenanceUnion g' \<and> distinct idx"
      if "card (provenanceUnion g) \<noteq> card (provenanceUnion g')"
      using that eq idx by (intro exI[of _ idx]) simp
    show "checkLostTypeAttributes g b g' = Inr ()"
      if "card (provenanceUnion g) = card (provenanceUnion g')"
      using that eq by simp
    show "checkLostTypeAttributes g b g' = Inl (MessageError ''IRTypeAttributesNotPropagated'' 0 [])"
      if "provenanceUnion g \<subset> provenanceUnion g'"
      using strict[OF that] eq by simp
  qed
qed

lemma ex_tracked_auditable: "auditable (ex_tracked n attrs)"
  by (simp add: auditable_def ex_tracked_def isFrozen_def new_TypeAttributeStore_def ex_leaf_def)

lemma provenanceUnion_ex_tracked:
  "provenanceUnion (ex_tracked n [ex_prov xs, ex_prov ys]) = set xs \<union> set ys"
  by (simp add: provenanceUnion_def nodeProvenance_def ex_tracked_def new_TypeAttributeStore_def
      array_get_def index_def typeRefIndex_def ex_leaf_def ex_prov_def
      provenanceTypeAttributeKind_def)

lemma allProvenance_ex_tracked:
  "allProvenance (ex_tracked n [ex_prov xs, ex_prov ys]) = Inr (setUnionManyInto [] [xs, ys])"
  by (simp add: allProvenance_def ex_tracked_def assert_def attributeStore_def defined_def
      allTypesUnordered_def isFrozen_def new_Set_def Set_add_def view_tryGet_def tryGet_def
      attributesForType_def getTypeIndex_def assertTypeRefGraph_def typeRefIndex_def
      array_get_def new_TypeAttributeStore_def tryGetInMap_def Map_get_def
      provenanceTypeAttributeKind_def ex_leaf_def ex_prov_def)

lemma checkLost_ex_tracked:
  assumes "\<not> lostTypeAttributes b"
  shows "checkLostTypeAttributes (ex_tracked n [ex_prov xs, ex_prov ys]) b
           (ex_tracked n' [ex_prov xs', ex_prov ys'])
         = (let old = setUnionManyInto [] [xs, ys]; new = setUnionManyInto [] [xs', ys']
            in if length old \<noteq> length new
               then Inl (MessageError ''IRTypeAttributesNotPropagated''
                           (length (setSubtract old new)) (setSubtract old new))
               else Inr ())"
proof -
  have "g_haveProvenanceAttributes (ex_tracked n [ex_prov xs, ex_prov ys])"
    by (simp add: ex_tracked_def)
  with assms show ?thesis
    by (simp add: checkLostTypeAttributes_def allProvenance_ex_tracked messageError_def Let_def)
qed

theorem checkLost_iff_cardinalities_differ_witness:
  "auditable (ex_tracked 0 [ex_prov [1], ex_prov [2]])
   \<and> auditable (ex_tracked 1 [ex_prov [1], ex_prov [2, 3]])
   \<and> \<not> lostTypeAttributes ex_builder
   \<and> provenanceUnion (ex_tracked 0 [ex_prov [1], ex_prov [2]])
       \<subset> provenanceUnion (ex_tracked 1 [ex_prov [1], ex_prov [2, 3]])
   \<and> checkLostTypeAttributes (ex_tracked 0 [ex_prov [1], ex_prov [2]]) ex_builder
         (ex_tracked 1 [ex_prov [1], ex_prov [2, 3]])
       = Inl (MessageError ''IRTypeAttributesNotPropagated'' 0 [])"
proof -
  have b: "\<not> lostTypeAttributes ex_builder" by (simp add: ex_builder_def)
  have s: "provenanceUnion (ex_tracked 0 [ex_prov [1], ex_prov [2]])
             \<subset> provenanceUnion (ex_tracked 1 [ex_prov [1], ex_prov [2, 3]])"
  proof -
    have "provenanceUnion (ex_tracked 0 [ex_prov [1], ex_prov [2]])
            \<subseteq> provenanceUnion (ex_tracked 1 [ex_prov [1], ex_prov [2, 3]])"
      "3 \<in> provenanceUnion (ex_tracked 1 [ex_prov [1], ex_prov [2, 3]])"
      "3 \<notin> provenanceUnion (ex_tracked 0 [ex_prov [1], ex_prov [2]])"
      by (simp_all add: provenanceUnion_ex_tracked)
    then show ?thesis by blast
  qed
  from checkLost_iff_cardinalities_differ[OF ex_tracked_auditable ex_tracked_auditable b,
      of 0 "[ex_prov [1], ex_prov [2]]" 1 "[ex_prov [1], ex_prov [2, 3]]"] s b
  show ?thesis by (simp add: ex_tracked_auditable)
qed


text \<open>The copying collaborators, run on the two-node graphs.\<close>

lemma ex_copy_builder_tracked:
  "ex_copy_builder attrs' (ex_tracked n attrs) =
     \<lparr>b_topLevels = [(''R'', \<lparr>tref_serial = Suc n, tref_index = 0\<rparr>)],
      b_types = [ex_leaf (Suc n) 0, ex_leaf (Suc n) (Suc 0)], b_typeAttributes = attrs',
      lostTypeAttributes = False, didAddForwardingIntersection = False, b_failure = None\<rparr>"
  by (simp add: ex_copy_builder_def ex_tracked_def ex_retag_def ex_leaf_def)

lemma freeze_ex_tracked:
  "freeze (new_TypeGraph b n True) [(''R'', \<lparr>tref_serial = n, tref_index = 0\<rparr>)]
      [ex_leaf n 0, ex_leaf n (Suc 0)] attrs = Inr (ex_tracked n attrs)"
  by (simp add: freeze_eq new_TypeGraph_def isFrozen_def nodeRefs_validate_def
      topLevelRefs_validate_def ex_tracked_def ex_leaf_def)

lemma ex_tracked_fields:
  "serial (ex_tracked n attrs) = n" "g_haveProvenanceAttributes (ex_tracked n attrs)"
  "\<not> g_printOnRewrite (ex_tracked n attrs)"
  by (simp_all add: ex_tracked_def)

lemma ex_copy_env_fields:
  "new_GraphRewriteBuilder (ex_copy_env attrs') g stm a p groups d repl = ex_copy_builder attrs' g"
  "new_GraphRemapBuilder (ex_copy_env attrs') g stm a p m d = ex_copy_builder attrs' g"
  by (simp_all add: ex_copy_env_def)

lemma rewrite_ex_copy:
  assumes "this < length h" "h ! this = ex_tracked n attrs"
  shows "rewrite (ex_copy_env attrs') h this title stm a groups d repl True =
           (case checkLostTypeAttributes (ex_tracked n attrs)
                   (ex_copy_builder attrs' (ex_tracked n attrs)) (ex_tracked (Suc n) attrs') of
              Inl e \<Rightarrow> Inl e
            | Inr u \<Rightarrow> Inr (length h, h @ [ex_tracked (Suc n) attrs']))"
proof -
  have fr: "freeze (new_TypeGraph (ex_copy_builder attrs' (ex_tracked n attrs)) (Suc n) True)
              [(''R'', \<lparr>tref_serial = Suc n, tref_index = 0\<rparr>)]
              [ex_leaf (Suc n) 0, ex_leaf (Suc n) (Suc 0)] attrs' = Inr (ex_tracked (Suc n) attrs')"
    by (rule freeze_ex_tracked)
  have sel: "b_failure (ex_copy_builder attrs' (ex_tracked n attrs)) = None"
    "b_topLevels (ex_copy_builder attrs' (ex_tracked n attrs))
       = [(''R'', \<lparr>tref_serial = Suc n, tref_index = 0\<rparr>)]"
    "b_types (ex_copy_builder attrs' (ex_tracked n attrs)) = [ex_leaf (Suc n) 0, ex_leaf (Suc n) (Suc 0)]"
    "b_typeAttributes (ex_copy_builder attrs' (ex_tracked n attrs)) = attrs'"
    "\<not> didAddForwardingIntersection (ex_copy_builder attrs' (ex_tracked n attrs))"
    by (simp_all add: ex_copy_builder_tracked)
  show ?thesis
    by (simp add: rewrite_forced_eq[OF assms(1)] Let_def assms(2) ex_copy_env_fields
        ex_tracked_fields sel fr split: sum.splits)
qed

lemma remap_ex_copy:
  assumes "this < length h" "h ! this = ex_tracked n attrs"
  shows "remap (ex_copy_env attrs') h this title stm a m d True =
           (case checkLostTypeAttributes (ex_tracked n attrs)
                   (ex_copy_builder attrs' (ex_tracked n attrs)) (ex_tracked (Suc n) attrs') of
              Inl e \<Rightarrow> Inl e
            | Inr u \<Rightarrow> Inr (length h, h @ [ex_tracked (Suc n) attrs']))"
proof -
  have fr: "freeze (new_TypeGraph (ex_copy_builder attrs' (ex_tracked n attrs)) (Suc n) True)
              [(''R'', \<lparr>tref_serial = Suc n, tref_index = 0\<rparr>)]
              [ex_leaf (Suc n) 0, ex_leaf (Suc n) (Suc 0)] attrs' = Inr (ex_tracked (Suc n) attrs')"
    by (rule freeze_ex_tracked)
  have sel: "b_failure (ex_copy_builder attrs' (ex_tracked n attrs)) = None"
    "b_topLevels (ex_copy_builder attrs' (ex_tracked n attrs))
       = [(''R'', \<lparr>tref_serial = Suc n, tref_index = 0\<rparr>)]"
    "b_types (ex_copy_builder attrs' (ex_tracked n attrs)) = [ex_leaf (Suc n) 0, ex_leaf (Suc n) (Suc 0)]"
    "b_typeAttributes (ex_copy_builder attrs' (ex_tracked n attrs)) = attrs'"
    "\<not> didAddForwardingIntersection (ex_copy_builder attrs' (ex_tracked n attrs))"
    by (simp_all add: ex_copy_builder_tracked)
  show ?thesis
    by (simp add: remap_forced_eq[OF assms(1)] Let_def assms(2) ex_copy_env_fields
        ex_tracked_fields sel fr split: sum.splits)
qed

lemma ex_copy_not_lost: "\<not> lostTypeAttributes (ex_copy_builder attrs' g)"
  by (simp add: ex_copy_builder_def)

text \<open>
  C9, as stated, fails in its last clause: the old graph carries marker 1 on its first
  node, the new graph carries markers 2 and 3, one on each node. The new union is strictly
  larger than the old one, and the error carries count 1 and the marker 1, not count 0 and
  an empty list; a remap that builds this new graph ends with that error.
\<close>

theorem checkLost_larger_union_counterexample:
  "auditable (ex_tracked 0 [ex_prov [1], ex_prov []])
   \<and> auditable (ex_tracked 1 [ex_prov [2], ex_prov [3]])
   \<and> \<not> lostTypeAttributes ex_builder
   \<and> card (provenanceUnion (ex_tracked 0 [ex_prov [1], ex_prov []]))
       < card (provenanceUnion (ex_tracked 1 [ex_prov [2], ex_prov [3]]))
   \<and> checkLostTypeAttributes (ex_tracked 0 [ex_prov [1], ex_prov []]) ex_builder
         (ex_tracked 1 [ex_prov [2], ex_prov [3]])
       = Inl (MessageError ''IRTypeAttributesNotPropagated'' 1 [1])
   \<and> checkLostTypeAttributes (ex_tracked 0 [ex_prov [1], ex_prov []]) ex_builder
         (ex_tracked 1 [ex_prov [2], ex_prov [3]])
       \<noteq> Inl (MessageError ''IRTypeAttributesNotPropagated'' 0 [])
   \<and> remap (ex_copy_env [ex_prov [2], ex_prov [3]]) [ex_tracked 0 [ex_prov [1], ex_prov []]] 0
         ''GC'' [] False [] False True
       = Inl (MessageError ''IRTypeAttributesNotPropagated'' 1 [1])"
proof -
  have b: "\<not> lostTypeAttributes ex_builder" by (simp add: ex_builder_def)
  have c: "card (provenanceUnion (ex_tracked 0 [ex_prov [1], ex_prov []]))
             < card (provenanceUnion (ex_tracked 1 [ex_prov [2], ex_prov [3]]))"
    by (simp add: provenanceUnion_ex_tracked)
  have d: "checkLostTypeAttributes (ex_tracked n [ex_prov [1], ex_prov []]) b'
             (ex_tracked n' [ex_prov [2], ex_prov [3]])
           = Inl (MessageError ''IRTypeAttributesNotPropagated'' 1 [1])"
    if "\<not> lostTypeAttributes b'" for b' n n'
    by (simp add: checkLost_ex_tracked[OF that] setUnionManyInto_def Set_add_def setSubtract_def)
  have e: "remap (ex_copy_env [ex_prov [2], ex_prov [3]]) [ex_tracked 0 [ex_prov [1], ex_prov []]] 0
             ''GC'' [] False [] False True
           = Inl (MessageError ''IRTypeAttributesNotPropagated'' 1 [1])"
    by (simp add: remap_ex_copy d[OF ex_copy_not_lost])
  from b c d[OF b] e show ?thesis by (simp add: ex_tracked_auditable)
qed


text \<open>
  The rewrite and the remap, in terms of the provenance unions of the old graph and of the
  graph that the builder has built.
\<close>

lemma rewrite_check_unions:
  assumes "this < length h" "auditable (h ! this)" "force \<or> groups \<noteq> []"
    and "new_GraphRewriteBuilder env (h ! this) stm alpha (g_haveProvenanceAttributes (h ! this))
           groups dbg repl = b"
    and "\<not> lostTypeAttributes b" "b_failure b = None"
    and "freeze (new_TypeGraph b (serial (h ! this) + 1) (g_haveProvenanceAttributes (h ! this)))
           (b_topLevels b) (b_types b) (b_typeAttributes b) = Inr g'"
  shows "card (provenanceUnion (h ! this)) \<noteq> card (provenanceUnion g') \<Longrightarrow>
           reportsLostMarkers (h ! this) g' (rewrite env h this title stm alpha groups dbg repl force)"
    and "card (provenanceUnion (h ! this)) = card (provenanceUnion g') \<Longrightarrow>
           checkLostTypeAttributes (h ! this) b g' = Inr ()
           \<and> (\<not> didAddForwardingIntersection b \<longrightarrow>
                 reportsNoLostMarkers (rewrite env h this title stm alpha groups dbg repl force))"
proof -
  from assms(2) have hp: "g_haveProvenanceAttributes (h ! this)" by (simp add: auditable_def)
  have aud: "auditable g'"
    by (rule freeze_auditable[OF assms(7)]) (simp add: new_TypeGraph_def hp)
  from checkLost_unions[OF assms(2) aud assms(5)] obtain idx where
    idx: "set idx = lostMarkers (h ! this) g'" "distinct idx"
    and eq: "checkLostTypeAttributes (h ! this) b g' =
               (if card (provenanceUnion (h ! this)) \<noteq> card (provenanceUnion g')
                then Inl (MessageError ''IRTypeAttributesNotPropagated''
                            (card (lostMarkers (h ! this) g')) idx)
                else Inr ())"
    unfolding lostMarkers_def by blast
  note rw = rewrite_forced_eq[OF assms(1,3), of env title stm alpha dbg repl]
  show "reportsLostMarkers (h ! this) g' (rewrite env h this title stm alpha groups dbg repl force)"
    if "card (provenanceUnion (h ! this)) \<noteq> card (provenanceUnion g')"
    unfolding reportsLostMarkers_def
    using that eq idx assms(4,6,7) by (intro exI[of _ idx]) (simp add: rw Let_def)
  show "checkLostTypeAttributes (h ! this) b g' = Inr ()
           \<and> (\<not> didAddForwardingIntersection b \<longrightarrow>
                 reportsNoLostMarkers (rewrite env h this title stm alpha groups dbg repl force))"
    if "card (provenanceUnion (h ! this)) = card (provenanceUnion g')"
    using that eq assms(4,6,7) by (simp add: rw Let_def reportsNoLostMarkers_def)
qed

lemma remap_check_unions:
  assumes "this < length h" "auditable (h ! this)" "force \<or> m \<noteq> []"
    and "new_GraphRemapBuilder env (h ! this) stm alpha (g_haveProvenanceAttributes (h ! this))
           m dbg = b"
    and "\<not> lostTypeAttributes b" "b_failure b = None"
    and "freeze (new_TypeGraph b (serial (h ! this) + 1) (g_haveProvenanceAttributes (h ! this)))
           (b_topLevels b) (b_types b) (b_typeAttributes b) = Inr g'"
  shows "card (provenanceUnion (h ! this)) \<noteq> card (provenanceUnion g') \<Longrightarrow>
           reportsLostMarkers (h ! this) g' (remap env h this title stm alpha m dbg force)"
    and "card (provenanceUnion (h ! this)) = card (provenanceUnion g') \<Longrightarrow>
           checkLostTypeAttributes (h ! this) b g' = Inr ()
           \<and> reportsNoLostMarkers (remap env h this title stm alpha m dbg force)"
proof -
  from assms(2) have hp: "g_haveProvenanceAttributes (h ! this)" by (simp add: auditable_def)
  have aud: "auditable g'"
    by (rule freeze_auditable[OF assms(7)]) (simp add: new_TypeGraph_def hp)
  from checkLost_unions[OF assms(2) aud assms(5)] obtain idx where
    idx: "set idx = lostMarkers (h ! this) g'" "distinct idx"
    and eq: "checkLostTypeAttributes (h ! this) b g' =
               (if card (provenanceUnion (h ! this)) \<noteq> card (provenanceUnion g')
                then Inl (MessageError ''IRTypeAttributesNotPropagated''
                            (card (lostMarkers (h ! this) g')) idx)
                else Inr ())"
    unfolding lostMarkers_def by blast
  note rw = remap_forced_eq[OF assms(1,3), of env title stm alpha dbg]
  show "reportsLostMarkers (h ! this) g' (remap env h this title stm alpha m dbg force)"
    if "card (provenanceUnion (h ! this)) \<noteq> card (provenanceUnion g')"
    unfolding reportsLostMarkers_def
    using that eq idx assms(4,6,7) by (intro exI[of _ idx]) (simp add: rw Let_def)
  show "checkLostTypeAttributes (h ! this) b g' = Inr ()
           \<and> reportsNoLostMarkers (remap env h this title stm alpha m dbg force)"
    if "card (provenanceUnion (h ! this)) = card (provenanceUnion g')"
    using that eq assms(4,6,7) by (simp add: rw Let_def reportsNoLostMarkers_def)
qed

text \<open>
  C2, as amended. For every rewrite or remap that builds a generation from a graph with
  provenance tracking, with a builder that does not declare attributes dropped: if some
  marker of the old graph's provenance union is absent from the new graph's union and
  the two unions differ in cardinality, the operation ends with the
  attributes-not-propagated error carrying the number and exactly the list of the
  missing markers; if every old marker is in the new union and the two unions have the
  same cardinality, the check reports nothing, and the operation does not end with that
  error (for a rewrite: when its builder added no forwarding intersection; otherwise its
  result is that of the corrective pass).
\<close>

theorem rewrite_remap_report_missing_markers:
  assumes "this < length h" "auditable (h ! this)"
  shows
    "((force \<or> groups \<noteq> [])
       \<and> new_GraphRewriteBuilder env (h ! this) stm alpha (g_haveProvenanceAttributes (h ! this))
            groups dbg repl = b
       \<and> \<not> lostTypeAttributes b \<and> b_failure b = None
       \<and> freeze (new_TypeGraph b (serial (h ! this) + 1) (g_haveProvenanceAttributes (h ! this)))
            (b_topLevels b) (b_types b) (b_typeAttributes b) = Inr g'
      \<longrightarrow>
        (lostMarkers (h ! this) g' \<noteq> {}
           \<and> card (provenanceUnion (h ! this)) \<noteq> card (provenanceUnion g') \<longrightarrow>
           reportsLostMarkers (h ! this) g'
             (rewrite env h this title stm alpha groups dbg repl force))
        \<and> (lostMarkers (h ! this) g' = {}
             \<and> card (provenanceUnion (h ! this)) = card (provenanceUnion g') \<longrightarrow>
             checkLostTypeAttributes (h ! this) b g' = Inr ()
             \<and> (\<not> didAddForwardingIntersection b \<longrightarrow>
                   reportsNoLostMarkers
                     (rewrite env h this title stm alpha groups dbg repl force))))
     \<and> ((force' \<or> m \<noteq> [])
         \<and> new_GraphRemapBuilder env (h ! this) stm alpha (g_haveProvenanceAttributes (h ! this))
              m dbg = bm
         \<and> \<not> lostTypeAttributes bm \<and> b_failure bm = None
         \<and> freeze (new_TypeGraph bm (serial (h ! this) + 1) (g_haveProvenanceAttributes (h ! this)))
              (b_topLevels bm) (b_types bm) (b_typeAttributes bm) = Inr gm
        \<longrightarrow>
          (lostMarkers (h ! this) gm \<noteq> {}
             \<and> card (provenanceUnion (h ! this)) \<noteq> card (provenanceUnion gm) \<longrightarrow>
             reportsLostMarkers (h ! this) gm (remap env h this title stm alpha m dbg force'))
          \<and> (lostMarkers (h ! this) gm = {}
               \<and> card (provenanceUnion (h ! this)) = card (provenanceUnion gm) \<longrightarrow>
               checkLostTypeAttributes (h ! this) bm gm = Inr ()
               \<and> reportsNoLostMarkers (remap env h this title stm alpha m dbg force')))"
  using rewrite_check_unions[OF assms, of force groups env stm alpha dbg repl b g' title]
    remap_check_unions[OF assms, of force' m env stm alpha dbg bm gm title]
  by blast


lemma lostMarkers_ex_tracked:
  "lostMarkers (ex_tracked n [ex_prov xs, ex_prov ys]) (ex_tracked n' [ex_prov xs', ex_prov ys'])
     = (set xs \<union> set ys) - (set xs' \<union> set ys')"
  by (simp add: lostMarkers_def provenanceUnion_ex_tracked)

theorem rewrite_remap_report_missing_markers_witness:
  "(0::nat) < length [ex_tracked 0 [ex_prov [1], ex_prov [2, 3]]]
   \<and> auditable ([ex_tracked 0 [ex_prov [1], ex_prov [2, 3]]] ! 0)
   \<and> lostMarkers (ex_tracked 0 [ex_prov [1], ex_prov [2, 3]]) (ex_tracked 1 [ex_prov [1], ex_prov []])
       = {2, 3}
   \<and> reportsLostMarkers (ex_tracked 0 [ex_prov [1], ex_prov [2, 3]])
        (ex_tracked 1 [ex_prov [1], ex_prov []])
        (rewrite (ex_copy_env [ex_prov [1], ex_prov []]) [ex_tracked 0 [ex_prov [1], ex_prov [2, 3]]] 0
           ''rewrite'' [] False [] False mustNotHappen True)
   \<and> rewrite (ex_copy_env [ex_prov [1], ex_prov []]) [ex_tracked 0 [ex_prov [1], ex_prov [2, 3]]] 0
        ''rewrite'' [] False [] False mustNotHappen True
       = Inl (MessageError ''IRTypeAttributesNotPropagated'' 2 [2, 3])"
proof -
  let ?old = "ex_tracked 0 [ex_prov [1], ex_prov [2, 3]]"
  let ?new = "ex_tracked (Suc 0) [ex_prov [1], ex_prov []]"
  let ?env = "ex_copy_env [ex_prov [1], ex_prov []]"
  let ?b = "ex_copy_builder [ex_prov [1], ex_prov []] ?old"
  have a: "(0::nat) < length [?old]" by simp
  have b: "auditable ([?old] ! 0)" by (simp add: ex_tracked_auditable)
  have c: "new_GraphRewriteBuilder ?env ([?old] ! 0) [] False
             (g_haveProvenanceAttributes ([?old] ! 0)) [] False mustNotHappen = ?b"
    by (simp add: ex_copy_env_fields)
  have d: "\<not> lostTypeAttributes ?b" "b_failure ?b = None"
    by (simp_all add: ex_copy_builder_tracked)
  have e: "freeze (new_TypeGraph ?b (serial ([?old] ! 0) + 1) (g_haveProvenanceAttributes ([?old] ! 0)))
             (b_topLevels ?b) (b_types ?b) (b_typeAttributes ?b) = Inr ?new"
    by (simp add: ex_tracked_fields ex_copy_builder_tracked freeze_ex_tracked)
  have f: "lostMarkers ([?old] ! 0) ?new = {2, 3}"
    by (auto simp: lostMarkers_ex_tracked)
  have g: "card (provenanceUnion ([?old] ! 0)) \<noteq> card (provenanceUnion ?new)"
    by (simp add: provenanceUnion_ex_tracked)
  have r: "rewrite ?env [?old] 0 ''rewrite'' [] False [] False mustNotHappen True
             = Inl (MessageError ''IRTypeAttributesNotPropagated'' 2 [2, 3])"
    by (simp add: rewrite_ex_copy checkLost_ex_tracked[OF ex_copy_not_lost] setUnionManyInto_def
        Set_add_def setSubtract_def)
  from rewrite_remap_report_missing_markers[OF a b, of True "[]" ?env "[]" False False
      mustNotHappen ?b ?new "''rewrite''"] c d e f g
  have "reportsLostMarkers ([?old] ! 0) ?new
          (rewrite ?env [?old] 0 ''rewrite'' [] False [] False mustNotHappen True)"
    by simp
  with a b f r show ?thesis by simp
qed

text \<open>
  C2, as stated, fails in both halves. The old graph carries marker 1 on its first node
  and marker 2 on its second. A builder that gives the second node marker 5 instead loses
  marker 2, and both the rewrite and the remap return the new graph without any error. A
  builder that gives the second node the markers 2 and 5 keeps every old marker, and the
  remap ends with the error, with count 0 and an empty list.
\<close>

theorem rewrite_swapped_marker_counterexample:
  "auditable (ex_tracked 0 [ex_prov [1], ex_prov [2]])
   \<and> \<not> lostTypeAttributes (ex_copy_builder [ex_prov [1], ex_prov [5]]
                              (ex_tracked 0 [ex_prov [1], ex_prov [2]]))
   \<and> 2 \<in> provenanceUnion (ex_tracked 0 [ex_prov [1], ex_prov [2]])
   \<and> 2 \<notin> provenanceUnion (ex_tracked 1 [ex_prov [1], ex_prov [5]])
   \<and> rewrite (ex_copy_env [ex_prov [1], ex_prov [5]]) [ex_tracked 0 [ex_prov [1], ex_prov [2]]] 0
        ''rewrite'' [] False [] False mustNotHappen True
       = Inr (1, [ex_tracked 0 [ex_prov [1], ex_prov [2]], ex_tracked 1 [ex_prov [1], ex_prov [5]]])
   \<and> remap (ex_copy_env [ex_prov [1], ex_prov [5]]) [ex_tracked 0 [ex_prov [1], ex_prov [2]]] 0
        ''remap'' [] False [] False True
       = Inr (1, [ex_tracked 0 [ex_prov [1], ex_prov [2]], ex_tracked 1 [ex_prov [1], ex_prov [5]]])
   \<and> provenanceUnion (ex_tracked 0 [ex_prov [1], ex_prov [2]])
       \<subseteq> provenanceUnion (ex_tracked 1 [ex_prov [1], ex_prov [2, 5]])
   \<and> remap (ex_copy_env [ex_prov [1], ex_prov [2, 5]]) [ex_tracked 0 [ex_prov [1], ex_prov [2]]] 0
        ''remap'' [] False [] False True
       = Inl (MessageError ''IRTypeAttributesNotPropagated'' 0 [])"
proof -
  have u: "2 \<in> provenanceUnion (ex_tracked 0 [ex_prov [1], ex_prov [2]])"
    "2 \<notin> provenanceUnion (ex_tracked 1 [ex_prov [1], ex_prov [5]])"
    "provenanceUnion (ex_tracked 0 [ex_prov [1], ex_prov [2]])
       \<subseteq> provenanceUnion (ex_tracked 1 [ex_prov [1], ex_prov [2, 5]])"
    by (simp_all add: provenanceUnion_ex_tracked)
  have r1: "rewrite (ex_copy_env [ex_prov [1], ex_prov [5]]) [ex_tracked 0 [ex_prov [1], ex_prov [2]]] 0
        ''rewrite'' [] False [] False mustNotHappen True
       = Inr (1, [ex_tracked 0 [ex_prov [1], ex_prov [2]], ex_tracked 1 [ex_prov [1], ex_prov [5]]])"
    by (simp add: rewrite_ex_copy checkLost_ex_tracked[OF ex_copy_not_lost] setUnionManyInto_def
        Set_add_def setSubtract_def)
  have r2: "remap (ex_copy_env [ex_prov [1], ex_prov [5]]) [ex_tracked 0 [ex_prov [1], ex_prov [2]]] 0
        ''remap'' [] False [] False True
       = Inr (1, [ex_tracked 0 [ex_prov [1], ex_prov [2]], ex_tracked 1 [ex_prov [1], ex_prov [5]]])"
    by (simp add: remap_ex_copy checkLost_ex_tracked[OF ex_copy_not_lost] setUnionManyInto_def
        Set_add_def setSubtract_def)
  have r3: "remap (ex_copy_env [ex_prov [1], ex_prov [2, 5]]) [ex_tracked 0 [ex_prov [1], ex_prov [2]]] 0
        ''remap'' [] False [] False True
       = Inl (MessageError ''IRTypeAttributesNotPropagated'' 0 [])"
    by (simp add: remap_ex_copy checkLost_ex_tracked[OF ex_copy_not_lost] setUnionManyInto_def
        Set_add_def setSubtract_def)
  from u r1 r2 r3 show ?thesis by (simp add: ex_tracked_auditable ex_copy_not_lost)
qed

section \<open>The new generation and the old graph\<close>











section \<open>Properties of the traversal\<close>

lemma typeAtIndex_frozen:
  "g_typeBuilder g = None \<Longrightarrow> g_types g = Some ts \<Longrightarrow>
     typeAtIndex g i = Inr (if i < length ts then Some (ts ! i) else None)"
  by (simp add: typeAtIndex_def defined_def)

lemma derefAll_valid:
  assumes "g_typeBuilder g = None" "g_types g = Some ts"
    and "list_all (\<lambda>r. tref_serial r = serial g \<and> tref_index r < length ts) rs"
  shows "derefAll rs g = Inr (map (\<lambda>r. Some (ts ! tref_index r)) rs)"
  using assms(3)
  by (induction rs)
     (simp_all add: derefTypeRef_def assertTypeRefGraph_def assert_def typeRefIndex_def
        typeAtIndex_frozen[OF assms(1,2)])

lemma wf_getChildren:
  assumes "wellFormedGraph g" "g_types g = Some ts" "t \<in> set ts"
  shows "\<exists>cs. getChildren g t = Inr cs \<and> set cs \<subseteq> Some ` set ts"
proof -
  from assms have fr: "g_typeBuilder g = None"
    and v: "list_all (\<lambda>r. tref_serial r = serial g \<and> tref_index r < length ts) (childRefs t)"
    by (auto simp: wellFormedGraph_def isFrozen_def list_all_iff)
  from derefAll_valid[OF fr assms(2) v]
  have "getChildren g t = Inr (new_Set (map (\<lambda>r. Some (ts ! tref_index r)) (childRefs t)))"
    by (simp add: getChildren_def)
  moreover have "set (new_Set (map (\<lambda>r. Some (ts ! tref_index r)) (childRefs t))) \<subseteq> Some ` set ts"
    using v by (auto simp: set_new_Set list_all_iff)
  ultimately show ?thesis by blast
qed

lemma wf_reachable_nodes:
  assumes "wellFormedGraph g" "g_types g = Some ts"
  shows "reachable g \<subseteq> set ts"
proof
  fix t assume "t \<in> reachable g"
  then show "t \<in> set ts"
  proof (induction rule: reachable.induct)
    case (root t)
    with assms show ?case
      by (auto simp: wellFormedGraph_def rootsOf_def list_all_iff split: option.splits)
  next
    case (child t c)
    from wf_getChildren[OF assms child.IH] child.hyps(2) show ?case
      by (auto simp: childrenOf_def)
  qed
qed

lemma wf_children_reachable:
  assumes "wellFormedGraph g" "t \<in> reachable g"
  shows "\<exists>cs. getChildren g t = Inr cs \<and> set cs \<subseteq> Some ` reachable g
              \<and> childrenOf g t = pendingNodes cs"
proof -
  from assms(1) obtain ts where ts: "g_types g = Some ts"
    by (auto simp: wellFormedGraph_def split: option.splits)
  from wf_reachable_nodes[OF assms(1) ts] assms(2) have "t \<in> set ts" by blast
  from wf_getChildren[OF assms(1) ts this] obtain cs where
    cs: "getChildren g t = Inr cs" "set cs \<subseteq> Some ` set ts" by blast
  have ch: "childrenOf g t = pendingNodes cs"
    by (auto simp: childrenOf_def cs(1) in_pendingNodes)
  have "set cs \<subseteq> Some ` reachable g"
  proof
    fix c assume c: "c \<in> set cs"
    with cs(2) obtain ty where ty: "c = Some ty" by blast
    with c have "ty \<in> childrenOf g t" by (simp add: ch in_pendingNodes)
    from reachable.child[OF assms(2) this] ty show "c \<in> Some ` reachable g" by simp
  qed
  with cs(1) ch show ?thesis by blast
qed

lemma visit_step_trans:
  assumes "visit_step g p st must1 (Inr st1)" "visit_step g p st1 must2 r"
  shows "visit_step g p st (must1 \<union> must2) r"
  using assms unfolding visit_step_def by (auto; blast)

lemma addFrom_visit:
  "wellFormedGraph g \<Longrightarrow> visit_ok g p st \<Longrightarrow> t \<in> Some ` reachable g \<Longrightarrow>
     visit_step g p st (pendingNodes [t]) (addFromType g p t st)"
  "wellFormedGraph g \<Longrightarrow> visit_ok g p st \<Longrightarrow> set cs \<subseteq> Some ` reachable g \<Longrightarrow>
     visit_step g p st (pendingNodes cs) (addFromTypes g p cs st)"
proof (induction g p t st and g p cs st rule: addFromType_addFromTypes.induct)
  case (1 g predicate st)
  then show ?case by simp
next
  case (2 g predicate t seen types)
  from 2(4) have tr: "t \<in> reachable g" by auto
  show ?case
  proof (cases "t \<in> set seen")
    case True
    with 2(3) show ?thesis
      by (simp add: visit_step_def in_pendingNodes subset_iff)
  next
    case False
    from wf_children_reachable[OF 2(2) tr] obtain cs where
      cs: "getChildren g t = Inr cs" "set cs \<subseteq> Some ` reachable g"
          "childrenOf g t = pendingNodes cs" by blast
    let ?st1 = "(Set_add seen t, if required predicate t then types @ [t] else types)"
    have seen1: "set (Set_add seen t) = insert t (set seen)"
      by (auto simp: Set_add_def)
    have ok1: "visit_ok g predicate ?st1"
      using 2(3) tr False by (auto simp: visit_ok_def seen1)
    from 2(1)[OF False cs(1) 2(2) ok1 cs(2)]
    obtain st' where st': "addFromTypes g predicate cs ?st1 = Inr st'"
      and ok': "visit_ok g predicate st'"
      and mono0: "set (fst ?st1) \<subseteq> set (fst st')"
      and must: "pendingNodes cs \<subseteq> set (fst st')"
      and cl0: "\<And>S. closedExcept g (set (fst ?st1)) S \<Longrightarrow> closedExcept g (set (fst st')) S"
      unfolding visit_step_def by blast
    from mono0 have mono: "insert t (set seen) \<subseteq> set (fst st')" by (simp add: seen1)
    from cl0 have cl: "closedExcept g (set (fst st')) S"
      if "closedExcept g (insert t (set seen)) S" for S
      using that by (simp add: seen1)
    have res: "addFromType g predicate (Some t) (seen, types) = Inr st'"
      using False cs(1) st' by simp
    have cl': "closedExcept g (set (fst st')) S" if c: "closedExcept g (set seen) S" for S
    proof -
      from c have "closedExcept g (insert t (set seen)) (insert t S)"
        by (auto simp: closedExcept_def)
      from cl[OF this] have i: "closedExcept g (set (fst st')) (insert t S)" .
      from must cs(3) have ct: "childrenOf g t \<subseteq> set (fst st')" by simp
      show ?thesis
        unfolding closedExcept_def
      proof
        fix x assume "x \<in> set (fst st')"
        with i have "x \<in> insert t S \<or> childrenOf g x \<subseteq> set (fst st')"
          by (simp add: closedExcept_def)
        with ct show "x \<in> S \<or> childrenOf g x \<subseteq> set (fst st')" by (cases "x = t") simp_all
      qed
    qed
    have "visit_step g predicate (seen, types) (pendingNodes [Some t]) (Inr st')"
      unfolding visit_step_def
    proof (intro exI[of _ st'] conjI allI impI)
      show "Inr st' = Inr st'" by simp
      show "visit_ok g predicate st'" by (rule ok')
      show "set (fst (seen, types)) \<subseteq> set (fst st')" using mono by auto
      show "pendingNodes [Some t] \<subseteq> set (fst st')" using mono by (simp add: pendingNodes_def)
      show "closedExcept g (set (fst st')) S" if "closedExcept g (set (fst (seen, types))) S" for S
        using cl'[of S] that by simp
    qed
    with res show ?thesis by simp
  qed
next
  case (3 g predicate st)
  then show ?case by (simp add: visit_step_def pendingNodes_def)
next
  case (4 g predicate c cs st)
  from 4(5) have c: "c \<in> Some ` reachable g" and cs: "set cs \<subseteq> Some ` reachable g" by auto
  from 4(1)[OF 4(3,4) c] have s1: "visit_step g predicate st (pendingNodes [c]) (addFromType g predicate c st)" .
  then obtain st1 where st1: "addFromType g predicate c st = Inr st1" and ok1: "visit_ok g predicate st1"
    by (auto simp: visit_step_def)
  from 4(2)[OF st1 4(3) ok1 cs]
  have s2: "visit_step g predicate st1 (pendingNodes cs) (addFromTypes g predicate cs st1)" .
  from visit_step_trans[OF s1[unfolded st1] s2]
  have "visit_step g predicate st (pendingNodes [c] \<union> pendingNodes cs) (addFromTypes g predicate cs st1)" .
  moreover have "pendingNodes [c] \<union> pendingNodes cs = pendingNodes (c # cs)"
    by (simp add: pendingNodes_def)
  ultimately show ?case using st1 by simp
qed

lemma closed_reachable:
  assumes "rootsOf g \<subseteq> X" "closedExcept g X {}"
  shows "reachable g \<subseteq> X"
proof
  fix t assume "t \<in> reachable g"
  then show "t \<in> X"
    by (induction rule: reachable.induct) (use assms in \<open>auto simp: closedExcept_def\<close>)
qed

lemma filterTypes_reachable:
  assumes "wellFormedGraph g"
  shows "\<exists>r. filterTypes g predicate = Inr r \<and> distinct r
             \<and> set r = {t \<in> reachable g. required predicate t}"
proof -
  from assms have fr: "isFrozen g" by (simp add: wellFormedGraph_def)
  then have tops: "topLevels g = Inr (g_topLevels g)" by (simp add: topLevels_def assert_def)
  let ?cs = "map snd (g_topLevels g)"
  have roots: "pendingNodes ?cs = rootsOf g"
    unfolding rootsOf_def by (simp add: set_eq_iff in_pendingNodes)
  have "set ?cs \<subseteq> Some ` rootsOf g"
  proof
    fix c assume c: "c \<in> set ?cs"
    then obtain name where n: "(name, c) \<in> set (g_topLevels g)" by auto
    with assms obtain t where "c = Some t"
      by (auto simp: wellFormedGraph_def list_all_iff split: option.splits)
    with c show "c \<in> Some ` rootsOf g" by (simp add: rootsOf_def)
  qed
  moreover have "rootsOf g \<subseteq> reachable g" by (auto intro: reachable.root)
  ultimately have cs: "set ?cs \<subseteq> Some ` reachable g" by blast
  have ok0: "visit_ok g predicate ([], [])" by (simp add: visit_ok_def)
  from addFrom_visit(2)[OF assms ok0 cs] obtain st' where
    r': "addFromTypes g predicate ?cs ([], []) = Inr st'"
    and ok': "visit_ok g predicate st'"
    and must': "rootsOf g \<subseteq> set (fst st')"
    and cl': "\<And>S. closedExcept g (set (fst ([]::Type list, []::Type list))) S
                 \<Longrightarrow> closedExcept g (set (fst st')) S"
    unfolding visit_step_def roots by blast
  obtain seen types where st': "st' = (seen, types)" by (cases st')
  have cl0: "closedExcept g (set (fst ([]::Type list, []::Type list))) {}"
    by (simp add: closedExcept_def)
  from r' ok' must' cl'[OF cl0] have
    r: "addFromTypes g predicate ?cs ([], []) = Inr (seen, types)"
    and ok: "visit_ok g predicate (seen, types)"
    and must: "rootsOf g \<subseteq> set seen"
    and cl: "closedExcept g (set seen) {}"
    by (simp_all add: st')
  from closed_reachable[OF must cl] ok have "set seen = reachable g"
    by (auto simp: visit_ok_def)
  with ok have "distinct types" "set types = {t \<in> reachable g. required predicate t}"
    by (auto simp: visit_ok_def)
  moreover have "filterTypes g predicate = Inr (new_Set types)"
    by (simp add: filterTypes_def tops r)
  ultimately show ?thesis by (simp add: set_new_Set distinct_new_Set)
qed

text \<open>
  C4. \<^verbatim>\<open>addFromType\<close> is a total function: the traversal terminates on every graph, cyclic
  or not. On a frozen graph whose references resolve, \<^verbatim>\<open>allNamedTypes\<close> returns the nodes
  that are reachable from the top-levels through the children and satisfy the predicate,
  each exactly once.
\<close>

theorem allNamedTypes_reachable_named:
  assumes "wellFormedGraph g"
  shows "\<exists>r. allNamedTypes isNamedType g = Inr r \<and> distinct r
             \<and> set r = {t \<in> reachable g. isNamedType t}"
  using filterTypes_reachable[OF assms, of "Some isNamedType"]
  by (simp add: allNamedTypes_def required_def)


lemma ex_nodes_distinct:
  "ex_A \<noteq> ex_B" "ex_A \<noteq> ex_C" "ex_A \<noteq> ex_D" "ex_B \<noteq> ex_C" "ex_B \<noteq> ex_D" "ex_C \<noteq> ex_D"
  "ex_B \<noteq> ex_A" "ex_C \<noteq> ex_A" "ex_D \<noteq> ex_A" "ex_C \<noteq> ex_B" "ex_D \<noteq> ex_B" "ex_D \<noteq> ex_C"
  by (simp_all add: ex_A_def ex_B_def ex_C_def ex_D_def ex_ref_def)

lemma ex_cyclic_children:
  "getChildren ex_cyclic ex_A = Inr [Some ex_B, Some ex_C]"
  "getChildren ex_cyclic ex_B = Inr [Some ex_A, Some ex_C]"
  "getChildren ex_cyclic ex_C = Inr []"
  "getChildren ex_cyclic ex_D = Inr []"
  by (simp_all add: getChildren_def derefTypeRef_def assertTypeRefGraph_def assert_def
      typeAtIndex_def defined_def typeRefIndex_def new_Set_def Set_add_def ex_cyclic_def
      ex_ref_def ex_nodes_distinct
      ex_A_def[THEN arg_cong, of childRefs] ex_B_def[THEN arg_cong, of childRefs]
      ex_C_def[THEN arg_cong, of childRefs] ex_D_def[THEN arg_cong, of childRefs])

lemma ex_cyclic_wellFormed: "wellFormedGraph ex_cyclic"
  by (simp add: wellFormedGraph_def isFrozen_def ex_cyclic_def ex_A_def ex_B_def ex_C_def
      ex_D_def ex_ref_def)

lemma ex_cyclic_named: "allNamedTypes ex_isNamedType ex_cyclic = Inr [ex_A, ex_B]"
proof -
  have named: "required (Some ex_isNamedType) ex_A" "required (Some ex_isNamedType) ex_B"
    "\<not> required (Some ex_isNamedType) ex_C"
    by (simp_all add: required_def ex_isNamedType_def ex_A_def ex_B_def ex_C_def)
  have tops: "topLevels ex_cyclic = Inr [(''R'', Some ex_A)]"
    by (simp add: topLevels_def assert_def isFrozen_def ex_cyclic_def)
  have "addFromTypes ex_cyclic (Some ex_isNamedType) [Some ex_A] ([], [])
          = Inr ([ex_A, ex_B, ex_C], [ex_A, ex_B])"
    by (simp add: ex_cyclic_children named Set_add_def ex_nodes_distinct)
  then show ?thesis
    by (simp add: allNamedTypes_def filterTypes_def tops new_Set_def Set_add_def ex_nodes_distinct)
qed

theorem allNamedTypes_reachable_named_witness:
  "wellFormedGraph ex_cyclic
   \<and> allNamedTypes ex_isNamedType ex_cyclic = Inr [ex_A, ex_B]
   \<and> set [ex_A, ex_B] = {t \<in> reachable ex_cyclic. ex_isNamedType t}"
  using allNamedTypes_reachable_named[OF ex_cyclic_wellFormed, of ex_isNamedType]
  by (simp add: ex_cyclic_wellFormed ex_cyclic_named)

lemma ex_D_unreachable: "ex_D \<notin> reachable ex_cyclic"
proof -
  have "rootsOf ex_cyclic \<subseteq> {ex_A, ex_B, ex_C}"
    by (simp add: rootsOf_def ex_cyclic_def)
  moreover have "closedExcept ex_cyclic {ex_A, ex_B, ex_C} {}"
    by (auto simp: closedExcept_def childrenOf_def ex_cyclic_children)
  ultimately have "reachable ex_cyclic \<subseteq> {ex_A, ex_B, ex_C}" by (rule closed_reachable)
  then show ?thesis using ex_nodes_distinct by auto
qed

text \<open>
  C10. On a frozen graph \<^verbatim>\<open>allTypesUnordered\<close> returns the nodes of the stored node
  array, each once, whatever the top-levels are: a node of the array that is not
  reachable from any top-level is in the result all the same.
\<close>

theorem allTypesUnordered_is_node_array:
  assumes "isFrozen g" "g_types g = Some ts"
  shows "\<exists>r. allTypesUnordered g = Inr r \<and> set r = set ts \<and> distinct r
           \<and> (\<forall>t\<in>set ts. t \<notin> reachable g \<longrightarrow> t \<in> set r)
           \<and> allTypesUnordered (g\<lparr>g_topLevels := tops\<rparr>) = Inr r"
  using assms
  by (simp add: allTypesUnordered_def assert_def defined_def isFrozen_def set_new_Set
      distinct_new_Set)

theorem allTypesUnordered_is_node_array_witness:
  "isFrozen ex_cyclic \<and> g_types ex_cyclic = Some [ex_A, ex_B, ex_C, ex_D]
   \<and> ex_D \<notin> reachable ex_cyclic
   \<and> (\<exists>r. allTypesUnordered ex_cyclic = Inr r \<and> set r = set [ex_A, ex_B, ex_C, ex_D] \<and> ex_D \<in> set r)"
proof -
  have a: "isFrozen ex_cyclic" by (simp add: isFrozen_def ex_cyclic_def)
  have b: "g_types ex_cyclic = Some [ex_A, ex_B, ex_C, ex_D]" by (simp add: ex_cyclic_def)
  from allTypesUnordered_is_node_array[OF a b, of "[]"] obtain r where
    "allTypesUnordered ex_cyclic = Inr r" "set r = set [ex_A, ex_B, ex_C, ex_D]" by blast
  then have "\<exists>r. allTypesUnordered ex_cyclic = Inr r \<and> set r = set [ex_A, ex_B, ex_C, ex_D]
                 \<and> ex_D \<in> set r" by simp
  with a b ex_D_unreachable show ?thesis by blast
qed

end
